(* ===== verification/Prelude.thy ===== *)
theory Prelude
  imports Main "HOL-Library.Mapping" "HOL-Library.AList_Mapping" "HOL-Library.Word"
    "HOL-Library.Signed_Division"
begin

section \<open>Shared vocabulary of the development\<close>

text \<open>
  This theory holds what every component of the model uses: the collections of rewrite
  rules, the reading of Go's built-in \<open>map\<close> as a \<^typ>\<open>('k, 'v) mapping\<close> (a missing key
  reads as the zero value of the element type), and generic facts on lists and words.
\<close>

named_theorems gomap_simps \<open>reading a Go map after a write\<close>
named_theorems bits_simps \<open>bits of bytes, addresses and prefixes\<close>
named_theorems trie_simps \<open>values found along the paths of a trie\<close>
named_theorems str_simps \<open>byte-string operations\<close>

subsection \<open>Go maps\<close>

type_synonym ('k, 'v) gomap = "('k, 'v) mapping"

text \<open>\<open>m[k]\<close> for a map of slices: a missing key reads as the nil slice.\<close>

definition gmap_list :: "('k, 'v list) gomap \<Rightarrow> 'k \<Rightarrow> 'v list" where
  "gmap_list m k = Mapping.lookup_default [] m k"

text \<open>\<open>m[k] = append(m[k], x)\<close>.\<close>

definition gmap_append :: "'k \<Rightarrow> 'v \<Rightarrow> ('k, 'v list) gomap \<Rightarrow> ('k, 'v list) gomap" where
  "gmap_append k x m = Mapping.update k (gmap_list m k @ [x]) m"

text \<open>\<open>m[k]\<close> and \<open>m[k]++\<close> for a map of integers.\<close>

definition gmap_int :: "('k, int) gomap \<Rightarrow> 'k \<Rightarrow> int" where
  "gmap_int m k = Mapping.lookup_default 0 m k"

definition gmap_incr :: "'k \<Rightarrow> ('k, int) gomap \<Rightarrow> ('k, int) gomap" where
  "gmap_incr k m = Mapping.update k (gmap_int m k + 1) m"

lemma gmap_list_empty [gomap_simps, simp]: "gmap_list Mapping.empty k = []"
  by (simp add: gmap_list_def lookup_default_empty)

lemma gmap_int_empty [gomap_simps, simp]: "gmap_int Mapping.empty k = 0"
  by (simp add: gmap_int_def lookup_default_empty)

lemma gmap_list_append [gomap_simps]:
  "gmap_list (gmap_append k x m) k' = (if k' = k then gmap_list m k @ [x] else gmap_list m k')"
  by (simp add: gmap_append_def gmap_list_def lookup_default_update')

lemma gmap_int_incr [gomap_simps]:
  "gmap_int (gmap_incr k m) k' = (if k' = k then gmap_int m k + 1 else gmap_int m k')"
  by (simp add: gmap_incr_def gmap_int_def lookup_default_update')

lemma is_empty_gmap_append [gomap_simps, simp]: "\<not> Mapping.is_empty (gmap_append k x m)"
  by (simp add: gmap_append_def Mapping.is_empty_def)

lemma is_empty_empty [gomap_simps, simp]: "Mapping.is_empty Mapping.empty"
  by (simp add: Mapping.is_empty_def)

lemma gmap_lookup_delete [gomap_simps]:
  "Mapping.lookup (Mapping.delete k m) k' = (if k' = k then None else Mapping.lookup m k')"
  by transfer auto

lemma gmap_lookup_update [gomap_simps]:
  "Mapping.lookup (Mapping.update k v m) k' = (if k' = k then Some v else Mapping.lookup m k')"
  by (simp add: lookup_update')

lemma gmap_keys: "k \<in> Mapping.keys m \<longleftrightarrow> Mapping.lookup m k \<noteq> None"
  by (simp add: keys_is_none_rep Option.is_none_def)

subsection \<open>Words\<close>

lemma unat_less_pow: "unat (w :: 'a::len word) < 2 ^ LENGTH('a)"
  by (rule unsigned_less)

lemma unat_ucast_up:
  assumes "LENGTH('a::len) \<le> LENGTH('b::len)"
  shows "unat (ucast (w :: 'a word) :: 'b word) = unat w"
proof -
  have "unat w < 2 ^ LENGTH('b)"
    using unat_less_pow [of w] assms by (meson one_le_numeral order_less_le_trans power_increasing)
  then show ?thesis by (simp add: unsigned_ucast_eq take_bit_nat_eq_self)
qed

lemma bit_odd_unat: "bit (w :: 'a::len word) n \<longleftrightarrow> odd (unat w div 2 ^ n)"
proof -
  have "bit (unat w) n \<longleftrightarrow> bit w n" by (simp add: bit_unsigned_iff)
  then show ?thesis by (simp add: bit_iff_odd)
qed

lemma unat_pow2: "m < LENGTH('a) \<Longrightarrow> unat ((2 :: 'a::len word) ^ m) = 2 ^ m"
proof -
  assume "m < LENGTH('a)"
  then have "(2 :: nat) ^ m < 2 ^ LENGTH('a)" by simp
  moreover have "(2 :: 'a word) ^ m = word_of_nat (2 ^ m)" by simp
  ultimately show ?thesis by (simp only: unsigned_of_nat take_bit_nat_eq_self of_nat_id)
qed

lemma unat_drop_bit: "unat (drop_bit n w) = unat (w :: 'a::len word) div 2 ^ n"
  unfolding unsigned_drop_bit_eq by (simp add: take_bit_nat_eq_self [OF unat_less_pow] drop_bit_eq_div)

lemma drop_bit_eq_bits:
  "drop_bit n a = drop_bit n b \<longleftrightarrow> (\<forall>k. bit (a :: 'a::len word) (n + k) = bit b (n + k))"
proof
  assume "drop_bit n a = drop_bit n b"
  then have "bit (drop_bit n a) k = bit (drop_bit n b) k" for k by simp
  then show "\<forall>k. bit a (n + k) = bit b (n + k)" by (simp add: bit_drop_bit_eq)
qed (rule bit_word_eqI, simp add: bit_drop_bit_eq)

subsection \<open>Folds that append\<close>

lemma gmap_list_fold_append:
  "gmap_list (fold (\<lambda>x m. gmap_append (key x) (val x) m) xs m) k =
     gmap_list m k @ map val (filter (\<lambda>x. key x = k) xs)"
  by (induction xs arbitrary: m) (auto simp: gomap_simps)

lemma gmap_int_fold_incr:
  "gmap_int (fold (\<lambda>x m. gmap_incr (key x) m) xs m) k =
     gmap_int m k + int (length (filter (\<lambda>x. key x = k) xs))"
  by (induction xs arbitrary: m) (auto simp: gomap_simps)

end
