(* ===== verification/Go_Strings.thy ===== *)
theory Go_Strings
  imports Prelude
begin

section \<open>Go strings\<close>

text \<open>
  A Go string is a byte sequence; it is modelled as a \<^typ>\<open>string\<close>, one \<^typ>\<open>char\<close> per
  byte. The functions below are the parts of the packages \<open>strings\<close> and \<open>strconv\<close> that
  the program calls. Where those functions look at UTF-8 encoded runes, the model looks for
  the byte sequences of the runes in question: a rune that is white space
  (\<open>unicode.IsSpace\<close>) is either one ASCII byte or one of the multi-byte sequences of
  \<open>uni_spaces\<close>, and since the first byte of such a sequence never occurs inside the
  encoding of another rune, searching bytes and searching runes agree.

  Case conversion is the byte-wise conversion on ASCII strings; the tables Go consults
  for strings with other bytes are the parameter \<^typ>\<open>'a\<close>-free record \<open>unicode\<close>, an
  argument of every definition that needs it.
\<close>

abbreviation byte :: "char \<Rightarrow> nat" where
  "byte c \<equiv> of_char c"

abbreviation nl :: char where "nl \<equiv> CHR 0x0A"
abbreviation cr :: char where "cr \<equiv> CHR 0x0D"
abbreviation tab :: char where "tab \<equiv> CHR 0x09"

subsection \<open>White space\<close>

definition ascii_space :: "char \<Rightarrow> bool" where
  "ascii_space c \<longleftrightarrow> byte c = 32 \<or> 9 \<le> byte c \<and> byte c \<le> 13"

definition is_ascii :: "string \<Rightarrow> bool" where
  "is_ascii s \<longleftrightarrow> list_all (\<lambda>c. byte c < 128) s"

definition uni_spaces :: "string list" where
  "uni_spaces =
     [[CHR 0xC2, CHR 0x85], [CHR 0xC2, CHR 0xA0], [CHR 0xE1, CHR 0x9A, CHR 0x80],
      [CHR 0xE2, CHR 0x80, CHR 0x80], [CHR 0xE2, CHR 0x80, CHR 0x81],
      [CHR 0xE2, CHR 0x80, CHR 0x82], [CHR 0xE2, CHR 0x80, CHR 0x83],
      [CHR 0xE2, CHR 0x80, CHR 0x84], [CHR 0xE2, CHR 0x80, CHR 0x85],
      [CHR 0xE2, CHR 0x80, CHR 0x86], [CHR 0xE2, CHR 0x80, CHR 0x87],
      [CHR 0xE2, CHR 0x80, CHR 0x88], [CHR 0xE2, CHR 0x80, CHR 0x89],
      [CHR 0xE2, CHR 0x80, CHR 0x8A], [CHR 0xE2, CHR 0x80, CHR 0xA8],
      [CHR 0xE2, CHR 0x80, CHR 0xA9], [CHR 0xE2, CHR 0x80, CHR 0xAF],
      [CHR 0xE2, CHR 0x81, CHR 0x9F], [CHR 0xE3, CHR 0x80, CHR 0x80]]"

text \<open>The number of bytes of the white-space rune a string starts (ends) with; 0 if none.\<close>

fun space_len :: "string \<Rightarrow> nat" where
  "space_len [] = 0"
| "space_len (c # cs) =
     (if ascii_space c then 1
      else if byte c < 128 then 0
      else case find (\<lambda>e. take (length e) (c # cs) = e) uni_spaces of
             None \<Rightarrow> 0 | Some e \<Rightarrow> length e)"

definition has_suffix :: "string \<Rightarrow> string \<Rightarrow> bool" where
  "has_suffix s e \<longleftrightarrow> length e \<le> length s \<and> drop (length s - length e) s = e"

definition space_suffix_len :: "string \<Rightarrow> nat" where
  "space_suffix_len s =
     (if s = [] then 0
      else if ascii_space (last s) then 1
      else if byte (last s) < 128 then 0
      else case find (has_suffix s) uni_spaces of None \<Rightarrow> 0 | Some e \<Rightarrow> length e)"

lemma space_len_le: "space_len s \<le> length s"
  by (cases s) (auto simp: find_Some_iff split: option.splits dest!: arg_cong [of _ _ length])

lemma space_suffix_len_le: "space_suffix_len s \<le> length s"
  by (cases s) (auto simp: space_suffix_len_def has_suffix_def find_Some_iff split: option.splits)

subsection \<open>Trimming\<close>

function trim_left_space :: "string \<Rightarrow> string" where
  "trim_left_space s =
     (if space_len s = 0 then s else trim_left_space (drop (space_len s) s))"
  by pat_completeness auto
termination
proof (relation "measure length", goal_cases)
  case (2 s)
  with space_len_le [of s] show ?case by (cases s) auto
qed simp

function trim_right_space :: "string \<Rightarrow> string" where
  "trim_right_space s =
     (if space_suffix_len s = 0 then s
      else trim_right_space (take (length s - space_suffix_len s) s))"
  by pat_completeness auto
termination
proof (relation "measure length", goal_cases)
  case (2 s)
  with space_suffix_len_le [of s] show ?case by (auto simp: min_def)
qed simp

declare trim_left_space.simps [simp del] trim_right_space.simps [simp del]

definition TrimSpace :: "string \<Rightarrow> string" where
  "TrimSpace s = trim_right_space (trim_left_space s)"

definition TrimLeft :: "string \<Rightarrow> char list \<Rightarrow> string" where
  "TrimLeft s cutset = dropWhile (\<lambda>c. c \<in> set cutset) s"

definition TrimRight :: "string \<Rightarrow> char list \<Rightarrow> string" where
  "TrimRight s cutset = rev (dropWhile (\<lambda>c. c \<in> set cutset) (rev s))"

definition HasPrefix :: "string \<Rightarrow> string \<Rightarrow> bool" where
  "HasPrefix s p \<longleftrightarrow> take (length p) s = p"

definition TrimSuffix :: "string \<Rightarrow> string \<Rightarrow> string" where
  "TrimSuffix s e = (if has_suffix s e then take (length s - length e) s else s)"

definition TrimPrefix :: "string \<Rightarrow> string \<Rightarrow> string" where
  "TrimPrefix s p = (if HasPrefix s p then drop (length p) s else s)"

subsection \<open>Searching and splitting\<close>

text \<open>
  \<open>cut_byte c s\<close> is the pair \<open>(s[:i], s[i+1:])\<close> for \<open>i := strings.IndexByte(s, c)\<close>, or
  \<open>None\<close> when the index is \<open>-1\<close>; \<open>cut_last_byte\<close> does the same at the last occurrence.
\<close>

fun cut_byte :: "char \<Rightarrow> string \<Rightarrow> (string \<times> string) option" where
  "cut_byte c [] = None"
| "cut_byte c (x # xs) =
     (if x = c then Some ([], xs)
      else case cut_byte c xs of None \<Rightarrow> None | Some (a, b) \<Rightarrow> Some (x # a, b))"

fun cut_last_byte :: "char \<Rightarrow> string \<Rightarrow> (string \<times> string) option" where
  "cut_last_byte c [] = None"
| "cut_last_byte c (x # xs) =
     (case cut_last_byte c xs of
        Some (a, b) \<Rightarrow> Some (x # a, b)
      | None \<Rightarrow> if x = c then Some ([], xs) else None)"

text \<open>\<open>strings.Fields\<close>: the maximal runs without white space.\<close>

function fields_from :: "string \<Rightarrow> string \<Rightarrow> string list" where
  "fields_from acc [] = (if acc = [] then [] else [rev acc])"
| "fields_from acc (c # cs) =
     (if space_len (c # cs) = 0 then fields_from (c # acc) cs
      else (if acc = [] then [] else [rev acc]) @
           fields_from [] (drop (space_len (c # cs)) (c # cs)))"
  by pat_completeness auto
termination
proof (relation "measure (\<lambda>(acc, s). length s)", goal_cases)
  case (3 acc c cs)
  with space_len_le [of "c # cs"] show ?case by (simp del: space_len.simps)
qed auto

definition Fields :: "string \<Rightarrow> string list" where
  "Fields s = fields_from [] s"

fun Join :: "string list \<Rightarrow> string \<Rightarrow> string" where
  "Join [] sep = []"
| "Join [x] sep = x"
| "Join (x # y # ys) sep = x @ sep @ Join (y # ys) sep"

text \<open>\<open>strings.Split\<close> at a one-byte separator.\<close>

fun SplitByte :: "char \<Rightarrow> string \<Rightarrow> string list" where
  "SplitByte c [] = [[]]"
| "SplitByte c (x # xs) =
     (if x = c then [] # SplitByte c xs
      else case SplitByte c xs of [] \<Rightarrow> [[x]] | y # ys \<Rightarrow> (x # y) # ys)"

subsection \<open>Case conversion\<close>

record unicode =
  uni_upper :: "string \<Rightarrow> string"
  uni_lower :: "string \<Rightarrow> string"

definition upper_byte :: "char \<Rightarrow> char" where
  "upper_byte c = (if 97 \<le> byte c \<and> byte c \<le> 122 then char_of (byte c - 32) else c)"

definition lower_byte :: "char \<Rightarrow> char" where
  "lower_byte c = (if 65 \<le> byte c \<and> byte c \<le> 90 then char_of (byte c + 32) else c)"

definition ToUpper :: "unicode \<Rightarrow> string \<Rightarrow> string" where
  "ToUpper u s = (if is_ascii s then map upper_byte s else uni_upper u s)"

definition ToLower :: "unicode \<Rightarrow> string \<Rightarrow> string" where
  "ToLower u s = (if is_ascii s then map lower_byte s else uni_lower u s)"

subsection \<open>Decimal numbers\<close>

definition is_digit :: "char \<Rightarrow> bool" where
  "is_digit c \<longleftrightarrow> 48 \<le> byte c \<and> byte c \<le> 57"

definition is_alpha :: "char \<Rightarrow> bool" where
  "is_alpha c \<longleftrightarrow> 65 \<le> byte c \<and> byte c \<le> 90 \<or> 97 \<le> byte c \<and> byte c \<le> 122"

definition digits_val :: "string \<Rightarrow> nat" where
  "digits_val s = foldl (\<lambda>n c. 10 * n + (byte c - 48)) 0 s"

text \<open>\<open>strconv.Atoi\<close> on a 64-bit platform: an optional sign, one or more digits, in range.\<close>

definition Atoi :: "string \<Rightarrow> int option" where
  "Atoi s =
     (let neg = (s \<noteq> [] \<and> hd s = CHR ''-'');
          ds = (if s \<noteq> [] \<and> (hd s = CHR ''-'' \<or> hd s = CHR ''+'') then tl s else s);
          n = (if neg then - int (digits_val ds) else int (digits_val ds))
      in if ds \<noteq> [] \<and> list_all is_digit ds \<and> - (2 ^ 63) \<le> n \<and> n < 2 ^ 63
         then Some n else None)"

text \<open>\<open>strconv.Itoa\<close>.\<close>

fun nat_digits :: "nat \<Rightarrow> string" where
  "nat_digits n =
     (if n < 10 then [char_of (48 + n)] else nat_digits (n div 10) @ [char_of (48 + n mod 10)])"

declare nat_digits.simps [simp del]

definition Itoa :: "int \<Rightarrow> string" where
  "Itoa i = (if i < 0 then CHR ''-'' # nat_digits (nat (- i)) else nat_digits (nat i))"

subsection \<open>Facts on trimming and cutting\<close>

lemma cut_byte_append [simp]: "c \<notin> set a \<Longrightarrow> cut_byte c (a @ c # b) = Some (a, b)"
  by (induction a) auto

lemma cut_byte_None [simp]: "cut_byte c s = None \<longleftrightarrow> c \<notin> set s"
  by (induction s) (auto split: option.splits)

lemma cut_byte_Some: "cut_byte c s = Some (a, b) \<longleftrightarrow> s = a @ c # b \<and> c \<notin> set a"
proof
  show "cut_byte c s = Some (a, b) \<Longrightarrow> s = a @ c # b \<and> c \<notin> set a"
    by (induction s arbitrary: a b) (auto split: option.splits if_splits)
qed auto

lemma cut_byte_length: "cut_byte c s = Some (a, b) \<Longrightarrow> length a + length b + 1 = length s"
  by (auto simp: cut_byte_Some)

lemma space_len_plain: "byte c < 128 \<Longrightarrow> \<not> ascii_space c \<Longrightarrow> space_len (c # s) = 0"
  by simp

lemma trim_left_space_id: "space_len s = 0 \<Longrightarrow> trim_left_space s = s"
  by (subst trim_left_space.simps) simp

lemma trim_right_space_id: "space_suffix_len s = 0 \<Longrightarrow> trim_right_space s = s"
  by (subst trim_right_space.simps) simp

lemma trim_left_space_Cons [simp]: "ascii_space c \<Longrightarrow> trim_left_space (c # s) = trim_left_space s"
  by (subst trim_left_space.simps) simp

lemma TrimSpace_Nil [simp]: "TrimSpace [] = []"
  by (simp add: TrimSpace_def trim_left_space_id trim_right_space_id space_suffix_len_def)

lemma TrimSpace_pad [simp]: "list_all ascii_space pad \<Longrightarrow> TrimSpace (pad @ s) = TrimSpace s"
  by (induction pad) (simp_all add: TrimSpace_def)

lemma TrimSpace_blank [simp]: "list_all ascii_space pad \<Longrightarrow> TrimSpace pad = []"
  using TrimSpace_pad [of pad "[]"] by simp

lemma uni_spaces_first: "e \<in> set uni_spaces \<Longrightarrow> e \<noteq> [] \<and> 128 \<le> byte (hd e)"
  by (auto simp: uni_spaces_def)

lemma space_suffix_len_less:
  assumes "byte c < 128" "\<not> ascii_space c"
  shows "space_suffix_len (c # s) \<le> length s"
proof (rule ccontr)
  assume "\<not> space_suffix_len (c # s) \<le> length s"
  with space_suffix_len_le [of "c # s"] have eq: "space_suffix_len (c # s) = length (c # s)" by simp
  then have "s \<noteq> []" using assms by (auto simp: space_suffix_len_def)
  with eq obtain e where "e \<in> set uni_spaces" "has_suffix (c # s) e" "length e = length (c # s)"
    by (auto simp: space_suffix_len_def find_Some_iff split: if_splits option.splits dest: nth_mem)
  then show False using uni_spaces_first [of e] assms(1) by (auto simp: has_suffix_def)
qed

lemma trim_right_space_Cons:
  assumes "byte c < 128" "\<not> ascii_space c"
  shows "\<exists>t. trim_right_space (c # s) = c # t"
proof (induction s rule: length_induct)
  case (1 s)
  let ?k = "space_suffix_len (c # s)"
  have k: "?k \<le> length s" by (rule space_suffix_len_less [OF assms])
  show ?case
  proof (cases "?k = 0")
    case False
    then have "length (take (length s - ?k) s) < length s" using k by simp
    with 1 obtain t where "trim_right_space (c # take (length s - ?k) s) = c # t" by blast
    moreover have "take (length (c # s) - ?k) (c # s) = c # take (length s - ?k) s"
      using k by (simp add: Suc_diff_le)
    ultimately show ?thesis using False by (subst trim_right_space.simps) simp
  qed (simp add: trim_right_space_id)
qed

lemma TrimSpace_Cons_plain:
  "byte c < 128 \<Longrightarrow> \<not> ascii_space c \<Longrightarrow> \<exists>t. TrimSpace (c # s) = c # t"
  unfolding TrimSpace_def by (simp add: trim_left_space_id trim_right_space_Cons)

lemma TrimSpace_plain:
  assumes "list_all (\<lambda>c. byte c < 128 \<and> \<not> ascii_space c) s"
  shows "TrimSpace s = s"
proof (cases s)
  case (Cons c cs)
  moreover have "byte (last s) < 128 \<and> \<not> ascii_space (last s)"
    using assms Cons last_in_set [of s] unfolding list_all_iff by blast
  ultimately show ?thesis using assms
    by (simp add: TrimSpace_def trim_left_space_id trim_right_space_id space_suffix_len_def)
qed simp

lemma trim_right_space_snoc: "ascii_space c \<Longrightarrow> trim_right_space (s @ [c]) = trim_right_space s"
  by (subst trim_right_space.simps) (simp add: space_suffix_len_def)

lemma trim_right_space_pad: "list_all ascii_space pad \<Longrightarrow> trim_right_space (s @ pad) = trim_right_space s"
  by (induction pad rule: rev_induct) (simp_all add: trim_right_space_snoc flip: append_assoc)

lemma TrimSpace_core:
  assumes "list_all ascii_space pre" "list_all ascii_space post" "s \<noteq> []"
    and "byte (hd s) < 128" "\<not> ascii_space (hd s)" "byte (last s) < 128" "\<not> ascii_space (last s)"
  shows "TrimSpace (pre @ s @ post) = s"
proof -
  have "trim_left_space (s @ post) = s @ post"
    using assms(3-5) by (cases s) (simp_all add: trim_left_space_id)
  moreover have "trim_right_space s = s"
    using assms(3,6,7) by (simp add: trim_right_space_id space_suffix_len_def)
  ultimately show ?thesis
    using TrimSpace_pad [OF assms(1), of "s @ post"] trim_right_space_pad [OF assms(2), of s]
    by (simp add: TrimSpace_def)
qed

text \<open>A trimmed string neither starts nor ends with an ASCII white-space byte.\<close>

lemma trim_right_space_last: "trim_right_space s \<noteq> [] \<Longrightarrow> \<not> ascii_space (last (trim_right_space s))"
proof (induction s rule: trim_right_space.induct)
  case (1 s)
  show ?case
  proof (cases "space_suffix_len s = 0")
    case True
    then show ?thesis using 1(2)
      by (auto simp: trim_right_space_id space_suffix_len_def split: if_splits)
  next
    case False
    then have e: "trim_right_space s = trim_right_space (take (length s - space_suffix_len s) s)"
      by (subst trim_right_space.simps) simp
    show ?thesis using 1(1) [OF False] 1(2) by (simp only: e) blast
  qed
qed

lemma TrimSpace_last: "TrimSpace s \<noteq> [] \<Longrightarrow> \<not> ascii_space (last (TrimSpace s))"
  unfolding TrimSpace_def by (rule trim_right_space_last)

lemma TrimRight_snoc [simp]: "c \<in> set cs \<Longrightarrow> TrimRight (s @ [c]) cs = TrimRight s cs"
  by (simp add: TrimRight_def)

lemma TrimRight_id: "s = [] \<or> last s \<notin> set cs \<Longrightarrow> TrimRight s cs = s"
  by (cases s rule: rev_cases) (auto simp: TrimRight_def)

lemma TrimRight_Cons: "c \<notin> set cs \<Longrightarrow> \<exists>t. TrimRight (c # s) cs = c # t"
  by (auto simp: TrimRight_def dropWhile_append) (metis rev_rev_ident)

lemma TrimLeft_append: "list_all (\<lambda>c. c \<in> set cs) pad \<Longrightarrow> TrimLeft (pad @ s) cs = TrimLeft s cs"
  by (induction pad) (auto simp: TrimLeft_def)

lemma TrimLeft_id: "s = [] \<or> hd s \<notin> set cs \<Longrightarrow> TrimLeft s cs = s"
  by (cases s) (auto simp: TrimLeft_def)

subsection \<open>Facts on splitting, joining and numerals\<close>

lemma SplitByte_nonempty [simp]: "SplitByte c s \<noteq> []"
  by (induction s) (auto split: list.splits)

lemma SplitByte_single: "c \<notin> set x \<Longrightarrow> SplitByte c x = [x]"
  by (induction x) auto

lemma SplitByte_append: "c \<notin> set x \<Longrightarrow> SplitByte c (x @ c # s) = x # SplitByte c s"
  by (induction x) auto

lemma SplitByte_Join: "xs \<noteq> [] \<Longrightarrow> \<forall>x \<in> set xs. c \<notin> set x \<Longrightarrow> SplitByte c (Join xs [c]) = xs"
  by (induction xs "[c]" rule: Join.induct) (auto simp: SplitByte_single SplitByte_append)

lemma set_Join: "set (Join xs sep) \<subseteq> \<Union> (set ` set xs) \<union> set sep"
  by (induction xs sep rule: Join.induct) auto

lemma Join_nonempty: "xs \<noteq> [] \<Longrightarrow> \<forall>x \<in> set xs. x \<noteq> [] \<Longrightarrow> Join xs sep \<noteq> []"
  by (induction xs sep rule: Join.induct) auto

lemma byte_char_of: "n < 256 \<Longrightarrow> byte (char_of n) = n"
  by simp

lemma nat_digits_ne [simp]: "nat_digits n \<noteq> []"
  by (subst nat_digits.simps) simp

lemma nat_digits_digit: "list_all is_digit (nat_digits n)"
proof (induction n rule: nat_digits.induct)
  case (1 n)
  have "n mod 10 < 10" by simp
  then have "is_digit (char_of (48 + n mod 10))" by (simp add: is_digit_def)
  moreover have "n < 10 \<Longrightarrow> is_digit (char_of (48 + n))" by (simp add: is_digit_def)
  ultimately show ?case using 1 by (subst nat_digits.simps) auto
qed

lemma digits_val_snoc: "digits_val (s @ [c]) = 10 * digits_val s + (byte c - 48)"
  by (simp add: digits_val_def)

lemma digits_val_nat_digits [simp]: "digits_val (nat_digits n) = n"
proof (induction n rule: nat_digits.induct)
  case (1 n)
  show ?case
  proof (cases "n < 10")
    case True
    then show ?thesis by (subst nat_digits.simps) (simp add: digits_val_def)
  next
    case False
    have "n mod 10 < 10" by simp
    then have "byte (char_of (48 + n mod 10)) - 48 = n mod 10" by simp
    with False 1 show ?thesis by (subst nat_digits.simps) (simp add: digits_val_snoc)
  qed
qed

lemma nat_digits_inject: "nat_digits m = nat_digits n \<longleftrightarrow> m = n"
  by (metis digits_val_nat_digits)

lemma digit_ne: "is_digit c \<Longrightarrow> c \<noteq> CHR ''.'' \<and> c \<noteq> CHR ''/'' \<and> c \<noteq> CHR '':''"
  by (auto simp: is_digit_def)

lemma nat_digits_no: "CHR ''.'' \<notin> set (nat_digits n)" "CHR ''/'' \<notin> set (nat_digits n)" "CHR '':'' \<notin> set (nat_digits n)"
  using nat_digits_digit [of n] digit_ne unfolding list_all_iff by blast+

text \<open>Two decimal digits, as in a clock time.\<close>

definition two_digits :: "nat \<Rightarrow> string" where
  "two_digits n = [char_of (48 + n div 10), char_of (48 + n mod 10)]"

lemma two_digits_facts:
  assumes "n < 100"
  shows "list_all is_digit (two_digits n)" "digits_val (two_digits n) = n"
proof -
  have "n div 10 < 10" "n mod 10 < 10" using assms by (simp_all add: less_mult_imp_div_less)
  then have "n div 10 \<le> 9" "n mod 10 \<le> 9" by linarith+
  then show "list_all is_digit (two_digits n)" "digits_val (two_digits n) = n"
    by (simp_all add: two_digits_def is_digit_def byte_char_of digits_val_def)
qed

lemma digit_plain: "is_digit c \<Longrightarrow> byte c < 128 \<and> \<not> ascii_space c"
  by (auto simp: is_digit_def ascii_space_def)

lemma Atoi_digits: "list_all is_digit ds \<Longrightarrow> ds \<noteq> [] \<Longrightarrow> digits_val ds < 2 ^ 63 \<Longrightarrow> Atoi ds = Some (int (digits_val ds))"
proof -
  assume a: "list_all is_digit ds" "ds \<noteq> []" "digits_val ds < 2 ^ 63"
  then have "is_digit (hd ds)" by (cases ds) simp_all
  then have "hd ds \<noteq> CHR ''-''" "hd ds \<noteq> CHR ''+''" by (auto simp: is_digit_def)
  moreover have "int (digits_val ds) < 2 ^ 63" using a(3) by simp
  ultimately show ?thesis using a by (simp add: Atoi_def Let_def)
qed

end
