(* ===== verification/Netip.thy ===== *)
theory Netip
  imports Go_Strings
begin

unbundle bit_operations_syntax

section \<open>Addresses and prefixes\<close>

text \<open>
  The part of Go's \<open>net/netip\<close> that the program uses. An \<open>Addr\<close> is the zero value, an
  IPv4 address, or an IPv6 address with a possibly empty zone; a \<open>Prefix\<close> is an address
  and a length, with length -1 for the zero (invalid) prefix, as \<open>Prefix.Bits\<close> reports it.
  \<open>As16\<close> gives the sixteen bytes, most significant first, on which the tries and the range
  arithmetic of the program work.
\<close>

datatype addr = NoAddr | V4 "32 word" | V6 "128 word" string

datatype prefix = Prefix (paddr: addr) (pbits: int)

fun Is4 :: "addr \<Rightarrow> bool" where
  "Is4 (V4 _) = True"
| "Is4 _ = False"

fun Is6 :: "addr \<Rightarrow> bool" where
  "Is6 (V6 _ _) = True"
| "Is6 _ = False"

definition IsValid :: "addr \<Rightarrow> bool" where
  "IsValid a \<longleftrightarrow> a \<noteq> NoAddr"

fun BitLen :: "addr \<Rightarrow> nat" where
  "BitLen NoAddr = 0"
| "BitLen (V4 _) = 32"
| "BitLen (V6 _ _) = 128"

fun Zone :: "addr \<Rightarrow> string" where
  "Zone (V6 _ z) = z"
| "Zone _ = []"

fun withoutZone :: "addr \<Rightarrow> addr" where
  "withoutZone (V6 w _) = V6 w []"
| "withoutZone a = a"

subsection \<open>Bytes\<close>

type_synonym bytes = "8 word list"

definition bytes_of :: "128 word \<Rightarrow> bytes" where
  "bytes_of w = map (\<lambda>k. ucast (drop_bit (120 - 8 * k) w)) [0..<16]"

definition of_bytes :: "bytes \<Rightarrow> 128 word" where
  "of_bytes bs = foldl (\<lambda>a b. push_bit 8 a OR ucast b) 0 bs"

definition of_bytes4 :: "bytes \<Rightarrow> 32 word" where
  "of_bytes4 bs = foldl (\<lambda>a b. push_bit 8 a OR ucast b) 0 bs"

text \<open>The 128-bit form of an address: IPv4 is stored under \<open>::ffff:0:0/96\<close>.\<close>

definition v4_mapped :: "32 word \<Rightarrow> 128 word" where
  "v4_mapped v = 0xFFFF00000000 OR ucast v"

fun addr128 :: "addr \<Rightarrow> 128 word" where
  "addr128 NoAddr = 0"
| "addr128 (V4 v) = v4_mapped v"
| "addr128 (V6 w _) = w"

definition As16 :: "addr \<Rightarrow> bytes" where
  "As16 a = bytes_of (addr128 a)"

definition AddrFrom16 :: "bytes \<Rightarrow> addr" where
  "AddrFrom16 bs = V6 (of_bytes bs) []"

definition AddrFromSlice :: "bytes \<Rightarrow> addr option" where
  "AddrFromSlice bs =
     (if length bs = 4 then Some (V4 (of_bytes4 bs))
      else if length bs = 16 then Some (AddrFrom16 bs)
      else None)"

fun Is4In6 :: "addr \<Rightarrow> bool" where
  "Is4In6 (V6 w _) = (drop_bit 32 w = 0xFFFF)"
| "Is4In6 _ = False"

fun Unmap :: "addr \<Rightarrow> addr" where
  "Unmap (V6 w z) = (if Is4In6 (V6 w z) then V4 (ucast w) else V6 w z)"
| "Unmap a = a"

subsection \<open>Comparison\<close>

fun str_cmp :: "string \<Rightarrow> string \<Rightarrow> int" where
  "str_cmp [] [] = 0"
| "str_cmp [] (_ # _) = -1"
| "str_cmp (_ # _) [] = 1"
| "str_cmp (c # cs) (d # ds) =
     (if byte c < byte d then -1 else if byte d < byte c then 1 else str_cmp cs ds)"

definition Compare :: "addr \<Rightarrow> addr \<Rightarrow> int" where
  "Compare a b =
     (if BitLen a < BitLen b then -1 else if BitLen b < BitLen a then 1
      else if addr128 a < addr128 b then -1 else if addr128 b < addr128 a then 1
      else if Is6 a then str_cmp (Zone a) (Zone b) else 0)"

subsection \<open>Prefixes\<close>

definition PrefixFrom :: "addr \<Rightarrow> int \<Rightarrow> prefix" where
  "PrefixFrom a b =
     Prefix (withoutZone a) (if a \<noteq> NoAddr \<and> 0 \<le> b \<and> b \<le> int (BitLen a) then b else -1)"

definition prefix_valid :: "prefix \<Rightarrow> bool" where
  "prefix_valid p \<longleftrightarrow> 0 \<le> pbits p"

fun Masked :: "prefix \<Rightarrow> prefix" where
  "Masked (Prefix NoAddr b) = Prefix NoAddr (-1)"
| "Masked (Prefix (V4 v) b) =
     (if b < 0 \<or> 32 < b then Prefix NoAddr (-1)
      else PrefixFrom (V4 (v AND NOT (mask (32 - nat b)))) b)"
| "Masked (Prefix (V6 w z) b) =
     (if b < 0 \<or> 128 < b then Prefix NoAddr (-1)
      else PrefixFrom (V6 (w AND NOT (mask (128 - nat b))) []) b)"

subsection \<open>Parsing\<close>

text \<open>
  \<open>parseIPv4Fields\<close>: the state of the loop is the value and the digit count of the current
  octet and the octets read so far. A dot is refused at the start, at the end and after
  another dot, that is, when no digit precedes it or nothing follows it.
\<close>

fun parse_ipv4_fields :: "string \<Rightarrow> nat \<Rightarrow> nat \<Rightarrow> nat list \<Rightarrow> nat list option" where
  "parse_ipv4_fields [] v digLen fs = (if length fs < 3 then None else Some (fs @ [v]))"
| "parse_ipv4_fields (c # cs) v digLen fs =
     (if is_digit c then
        if digLen = 1 \<and> v = 0 then None
        else let v' = v * 10 + (byte c - 48)
             in if v' > 255 then None else parse_ipv4_fields cs v' (digLen + 1) fs
      else if c = CHR ''.'' then
        if digLen = 0 \<or> cs = [] then None
        else if length fs = 3 then None
        else parse_ipv4_fields cs 0 0 (fs @ [v])
      else None)"

definition parseIPv4 :: "string \<Rightarrow> addr option" where
  "parseIPv4 s = map_option (\<lambda>fs. V4 (of_bytes4 (map of_nat fs))) (parse_ipv4_fields s 0 0 [])"

definition hex_val :: "char \<Rightarrow> nat option" where
  "hex_val c =
     (if 48 \<le> byte c \<and> byte c \<le> 57 then Some (byte c - 48)
      else if 97 \<le> byte c \<and> byte c \<le> 102 then Some (byte c - 87)
      else if 65 \<le> byte c \<and> byte c \<le> 70 then Some (byte c - 55)
      else None)"

definition hex_digits :: "string \<Rightarrow> string" where
  "hex_digits s = takeWhile (\<lambda>c. hex_val c \<noteq> None) s"

definition hex_acc :: "string \<Rightarrow> nat" where
  "hex_acc ds = foldl (\<lambda>n c. 16 * n + the (hex_val c)) 0 ds"

text \<open>
  The loop of \<open>parseIPv6\<close>: the bytes read so far and the position of the ellipsis, if any.
  The result is those two and the unread rest of the string.
\<close>

function parse_ipv6_loop ::
  "string \<Rightarrow> nat list \<Rightarrow> nat option \<Rightarrow> (nat list \<times> nat option \<times> string) option" where
  "parse_ipv6_loop s ip ell =
     (if 16 \<le> length ip then Some (ip, ell, s)
      else let ds = hex_digits s; rest = drop (length ds) s in
      if 4 < length ds \<or> ds = [] then None
      else if rest \<noteq> [] \<and> hd rest = CHR ''.'' then
        if ell = None \<and> length ip \<noteq> 12 then None
        else if 16 < length ip + 4 then None
        else map_option (\<lambda>fs. (ip @ fs, ell, [])) (parse_ipv4_fields s 0 0 [])
      else let ip' = ip @ [hex_acc ds div 256, hex_acc ds mod 256] in
      if rest = [] then Some (ip', ell, [])
      else if hd rest \<noteq> CHR '':'' then None
      else if tl rest = [] then None
      else let s' = tl rest in
      if hd s' = CHR '':'' then
        if ell \<noteq> None then None
        else if tl s' = [] then Some (ip', Some (length ip'), [])
        else parse_ipv6_loop (tl s') ip' (Some (length ip'))
      else parse_ipv6_loop s' ip' ell)"
  by pat_completeness auto
termination
  by (relation "measure (\<lambda>(s, ip, ell). length s)") (auto simp: Let_def hex_digits_def)

declare parse_ipv6_loop.simps [simp del]

definition parseIPv6 :: "string \<Rightarrow> addr option" where
  "parseIPv6 inp =
     (let (s, zone, bad) = (case cut_byte (CHR ''%'') inp of
                              None \<Rightarrow> (inp, [], False)
                            | Some (a, b) \<Rightarrow> (a, b, b = []));
          lead = (2 \<le> length s \<and> HasPrefix s ''::'');
          s' = (if lead then drop 2 s else s)
      in if bad then None
         else if lead \<and> s' = [] then Some (V6 0 zone)
         else case parse_ipv6_loop s' [] (if lead then Some 0 else None) of
                None \<Rightarrow> None
              | Some (ip, ell, rest) \<Rightarrow>
                  if rest \<noteq> [] then None
                  else if length ip < 16 then
                    (case ell of
                       None \<Rightarrow> None
                     | Some e \<Rightarrow>
                         Some (V6 (of_bytes (map of_nat
                           (take e ip @ replicate (16 - length ip) 0 @ drop e ip))) zone))
                  else if ell \<noteq> None then None
                  else Some (V6 (of_bytes (map of_nat ip)) zone))"

fun parse_dispatch :: "string \<Rightarrow> string \<Rightarrow> addr option" where
  "parse_dispatch s [] = None"
| "parse_dispatch s (c # cs) =
     (if c = CHR ''.'' then parseIPv4 s
      else if c = CHR '':'' then parseIPv6 s
      else if c = CHR ''%'' then None
      else parse_dispatch s cs)"

definition ParseAddr :: "string \<Rightarrow> addr option" where
  "ParseAddr s = parse_dispatch s s"

definition ParsePrefix :: "string \<Rightarrow> prefix option" where
  "ParsePrefix s =
     (case cut_last_byte (CHR ''/'') s of
        None \<Rightarrow> None
      | Some (ipStr, bitsStr) \<Rightarrow>
          (case ParseAddr ipStr of
             None \<Rightarrow> None
           | Some ip \<Rightarrow>
               if Is6 ip \<and> Zone ip \<noteq> [] then None
               else if 1 < length bitsStr \<and> (byte (hd bitsStr) < 49 \<or> 57 < byte (hd bitsStr))
               then None
               else (case Atoi bitsStr of
                       None \<Rightarrow> None
                     | Some b \<Rightarrow>
                         if b < 0 \<or> int (if Is6 ip then 128 else 32) < b then None
                         else Some (PrefixFrom ip b))))"

text \<open>\<open>netip.ParseAddrPort\<close>, of which the program uses the address only.\<close>

definition parse_uint16 :: "string \<Rightarrow> bool" where
  "parse_uint16 s \<longleftrightarrow> s \<noteq> [] \<and> list_all is_digit s \<and> digits_val s < 65536"

definition ParseAddrPort_Addr :: "string \<Rightarrow> addr option" where
  "ParseAddrPort_Addr s =
     (case cut_last_byte (CHR '':'') s of
        None \<Rightarrow> None
      | Some (ip, port) \<Rightarrow>
          if ip = [] \<or> port = [] then None
          else let v6 = (hd ip = CHR ''['') in
            if v6 \<and> (length ip < 2 \<or> last ip \<noteq> CHR '']'') then None
            else let ip' = (if v6 then butlast (tl ip) else ip) in
              if \<not> parse_uint16 port then None
              else (case ParseAddr ip' of
                      None \<Rightarrow> None
                    | Some a \<Rightarrow> if v6 = Is4 a then None else Some a))"

end
