(* ===== verification/Netip_Bits.thy ===== *)
theory Netip_Bits
  imports Netip
begin

section \<open>Bits and values of address bytes\<close>

text \<open>
  The program works on the sixteen bytes of an address; the facts of this theory read
  those bytes as bits of the 128-bit address and as its numeric value, so that byte loops
  can be compared with word arithmetic.
\<close>

lemma length_bytes_of [simp]: "length (bytes_of w) = 16"
  by (simp add: bytes_of_def)

lemma length_As16 [simp]: "length (As16 a) = 16"
  by (simp add: As16_def)

lemma nth_bytes_of [simp]:
  "k < 16 \<Longrightarrow> bytes_of w ! k = ucast (drop_bit (120 - 8 * k) w)"
  by (simp add: bytes_of_def)

lemma bit_nth_bytes_of [bits_simps]:
  "k < 16 \<Longrightarrow> bit (bytes_of w ! k) j \<longleftrightarrow> j < 8 \<and> bit w (120 - 8 * k + j)"
  by (simp add: bit_simps add.commute) (auto dest: bit_imp_le_length)

lemma bit_of_bytes_gen:
  fixes a :: "'a::len word" and bs :: bytes
  assumes "n < LENGTH('a)" and "8 \<le> LENGTH('a)"
  shows "bit (foldl (\<lambda>a b. push_bit 8 a OR ucast b) a bs) n \<longleftrightarrow>
     (if n div 8 < length bs then bit (rev bs ! (n div 8)) (n mod 8) else bit a (n - 8 * length bs))"
  using assms(1)
proof (induction bs arbitrary: n rule: rev_induct)
  case Nil
  then show ?case by simp
next
  case (snoc b bs)
  show ?case
  proof (cases "n < 8")
    case True
    with snoc.prems assms(2) show ?thesis by (simp add: bit_simps)
  next
    case False
    then obtain m where m: "n = m + 8" by (metis le_Suc_ex not_less add.commute)
    then have d: "n div 8 = Suc (m div 8)" "n mod 8 = m mod 8" by simp_all
    have b: "\<not> bit b n" using m by (auto dest: bit_imp_le_length)
    with m d snoc show ?thesis by (simp add: bit_simps)
  qed
qed

lemma bit_of_bytes [bits_simps]:
  assumes "length bs = 16"
  shows "bit (of_bytes bs) n \<longleftrightarrow> n < 128 \<and> bit (bs ! (15 - n div 8)) (n mod 8)"
proof (cases "n < 128")
  case True
  then have "n div 8 < 16" by simp
  with True assms show ?thesis
    using bit_of_bytes_gen [of n "0 :: 128 word" bs] by (simp add: of_bytes_def rev_nth)
next
  case False
  then show ?thesis by (auto dest: bit_imp_le_length)
qed

lemma of_bytes_bytes_of [simp]: "of_bytes (bytes_of w) = w"
proof (rule bit_word_eqI)
  fix n assume "n < LENGTH(128)"
  then have n: "n < 128" by simp
  then have "15 - n div 8 < 16" "120 - 8 * (15 - n div 8) = 8 * (n div 8)" by auto
  then have "15 - n div 8 < 16" "120 - 8 * (15 - n div 8) + n mod 8 = n" by simp_all
  then show "bit (of_bytes (bytes_of w)) n = bit w n"
    using n by (simp add: bit_of_bytes bit_nth_bytes_of del: nth_bytes_of)
qed

lemma bytes_of_of_bytes:
  assumes "length bs = 16"
  shows "bytes_of (of_bytes bs) = bs"
proof (rule nth_equalityI)
  show "length (bytes_of (of_bytes bs)) = length bs" using assms by simp
next
  fix k assume "k < length (bytes_of (of_bytes bs))"
  then have k: "k < 16" by simp
  show "bytes_of (of_bytes bs) ! k = bs ! k"
  proof (rule bit_word_eqI)
    fix j assume "j < LENGTH(8)"
    then have j: "j < 8" by simp
    have e: "120 - 8 * k = 8 * (15 - k)" using k by simp
    have "(120 - 8 * k + j) div 8 = 15 - k" "(120 - 8 * k + j) mod 8 = j" "120 - 8 * k + j < 128"
      unfolding e using k j by simp_all
    then show "bit (bytes_of (of_bytes bs) ! k) j = bit (bs ! k) j"
      using k j assms by (simp add: bit_nth_bytes_of bit_of_bytes del: nth_bytes_of)
  qed
qed

lemma AddrFrom16_As16 [simp]: "AddrFrom16 (As16 a) = V6 (addr128 a) []"
  by (simp add: AddrFrom16_def As16_def)

lemma As16_AddrFrom16_As16 [simp]: "As16 (AddrFrom16 (As16 a)) = As16 a"
  by (simp add: As16_def AddrFrom16_def)

subsection \<open>IPv4 inside the 128-bit space\<close>

lemma bit_v4_mapped [bits_simps]:
  "bit (v4_mapped v) n \<longleftrightarrow> 32 \<le> n \<and> n < 48 \<or> bit v n"
proof -
  have m: "(0xFFFF00000000 :: 128 word) = push_bit 32 (mask 16)"
    by (simp add: mask_eq_exp_minus_1 push_bit_eq_mult)
  show ?thesis
    unfolding v4_mapped_def m by (auto simp: bit_simps dest: bit_imp_le_length)
qed

lemma ucast_v4_mapped [simp]: "ucast (v4_mapped v) = v"
  by (rule bit_word_eqI) (auto simp: bit_simps bits_simps)

lemma v4_mapped_inj [simp]: "v4_mapped v = v4_mapped v' \<longleftrightarrow> v = v'"
  using ucast_v4_mapped by metis

lemma drop_v4_mapped [simp]: "drop_bit 32 (v4_mapped v) = 0xFFFF"
proof -
  have m: "(0xFFFF :: 128 word) = mask 16" by (simp add: mask_eq_exp_minus_1)
  show ?thesis
    unfolding m by (rule bit_word_eqI) (auto simp: bit_simps bits_simps dest: bit_imp_le_length)
qed

lemma Unmap_v4_mapped [simp]: "Unmap (V6 (v4_mapped v) z) = V4 v"
  by simp

lemma v4_mapped_or: "v4_mapped v OR ucast x = v4_mapped (v OR x)"
  by (rule bit_word_eqI) (auto simp: bit_simps bits_simps dest: bit_imp_le_length)

lemma v4_mapped_add: "v4_mapped v = 0xFFFF00000000 + ucast v"
proof -
  have m: "(0xFFFF00000000 :: 128 word) = push_bit 32 (mask 16)"
    by (simp add: mask_eq_exp_minus_1 push_bit_eq_mult)
  have "(0xFFFF00000000 :: 128 word) AND ucast v = 0"
    unfolding m by (rule bit_word_eqI) (auto simp: bit_simps dest: bit_imp_le_length)
  then show ?thesis by (simp add: v4_mapped_def disjunctive_add_eq_or)
qed

lemma unat_v4_mapped: "unat (v4_mapped v) = 0xFFFF00000000 + unat v"
proof -
  have "unat v < 2 ^ 32" using unat_less_pow [of v] by simp
  then show ?thesis
    by (simp add: v4_mapped_add unat_word_ariths unat_ucast_up)
qed

lemma v4_mapped_less [simp]: "v4_mapped v < v4_mapped v' \<longleftrightarrow> v < v'"
  by (simp add: word_less_nat_alt unat_v4_mapped)

subsection \<open>The value of bytes, least significant first\<close>

fun le_val :: "bytes \<Rightarrow> nat" where
  "le_val [] = 0"
| "le_val (b # bs) = unat b + 256 * le_val bs"

lemma le_val_less: "le_val bs < 256 ^ length bs"
proof (induction bs)
  case (Cons b bs)
  have "unat b < 256" using unat_less_pow [of b] by simp
  with Cons show ?case by simp
qed simp

lemma le_val_append: "le_val (bs @ [b]) = le_val bs + 256 ^ length bs * unat b"
  by (induction bs) (auto simp: algebra_simps)

lemma push_or_byte: 
  fixes a :: "128 word"
  shows "push_bit 8 a OR ucast (b :: 8 word) = 256 * a + ucast b"
proof -
  have "push_bit 8 a AND ucast b = 0"
    by (rule bit_word_eqI) (auto simp: bit_simps dest: bit_imp_le_length)
  then have "push_bit 8 a OR ucast b = push_bit 8 a + ucast b"
    by (simp add: disjunctive_add_eq_or)
  then show ?thesis by (simp add: push_bit_eq_mult mult.commute)
qed

lemma unat_push_or_byte:
  fixes a :: "128 word" and b :: "8 word"
  assumes "256 * unat a + unat b < 2 ^ 128"
  shows "unat (push_bit 8 a OR ucast b) = 256 * unat a + unat b"
proof -
  have "unat (ucast b :: 128 word) = unat b" by (rule unat_ucast_up) simp
  moreover have "unat (256 * a) = 256 * unat a"
    using assms by (simp add: unat_word_ariths)
  ultimately show ?thesis
    using assms by (simp add: push_or_byte unat_word_ariths)
qed

lemma unat_foldl_bytes:
  fixes bs :: bytes and a :: "128 word"
  assumes "256 ^ length bs * unat a + le_val (rev bs) < 2 ^ 128"
  shows "unat (foldl (\<lambda>a b. push_bit 8 a OR ucast b) a bs) = 256 ^ length bs * unat a + le_val (rev bs)"
  using assms
proof (induction bs rule: rev_induct)
  case Nil
  then show ?case by simp
next
  case (snoc b bs)
  define x where "x = 256 ^ length bs * unat a + le_val (rev bs)"
  have eq: "256 ^ length (bs @ [b]) * unat a + le_val (rev (bs @ [b])) = 256 * x + unat b"
    by (simp add: x_def algebra_simps)
  then have x: "256 * x + unat b < 2 ^ 128" using snoc.prems by simp
  then have "x < 2 ^ 128" by simp
  then have IH: "unat (foldl (\<lambda>a b. push_bit 8 a OR ucast b) a bs) = x"
    using snoc.IH by (simp add: x_def)
  show ?case
    unfolding eq using x unat_push_or_byte [of "foldl (\<lambda>a b. push_bit 8 a OR ucast b) a bs" b]
    by (simp add: IH)
qed

lemma unat_of_bytes: "length bs = 16 \<Longrightarrow> unat (of_bytes bs) = le_val (rev bs)"
  using unat_foldl_bytes [of bs 0] le_val_less [of "rev bs"] by (simp add: of_bytes_def)

lemma le_val_bytes_of: "le_val (rev (bytes_of w)) = unat w"
  using unat_of_bytes [of "bytes_of w"] by simp

end
