(* ===== verification/Path_Trie.thy ===== *)
theory Path_Trie
  imports Netip_Bits "HOL-Library.Sublist" "HOL-Library.Multiset"
begin

section \<open>Binary tries over address bits\<close>

text \<open>
  Two packages of the program keep a binary trie whose edges are the bits of the 128-bit
  address: the access-control tree of \<open>internal/acl\<close> and the object index of
  \<open>internal/ripe\<close>. This theory holds what they share: the bit extraction, the path of a
  prefix, the covering relation between prefixes and addresses, and the contract
  (\<open>bit_trie\<close>) that both node types meet, with the facts their lookups rest on.
\<close>

subsection \<open>Bits of an address, most significant first\<close>

definition bitAt :: "bytes \<Rightarrow> nat \<Rightarrow> 8 word" where
  "bitAt b i = drop_bit (7 - (i AND 7)) (b ! drop_bit 3 i) AND 1"

text \<open>The branches taken by the loop \<open>for i := 0; i < depth; i++ { bit := bitAt(bits, i) ... }\<close>.\<close>

definition bit_path :: "bytes \<Rightarrow> nat \<Rightarrow> bool list" where
  "bit_path bits depth = map (\<lambda>i. bitAt bits i \<noteq> 0) [0..<depth]"

lemma bitAt_bytes_of [bits_simps]:
  assumes "i < 128"
  shows "bitAt (bytes_of w) i \<noteq> 0 \<longleftrightarrow> bit w (127 - i)"
proof -
  have d: "drop_bit 3 i = i div 8" by (simp add: drop_bit_eq_div)
  have m: "i AND 7 = i mod 8"
    using take_bit_eq_mask [of 3 i] by (simp add: mask_eq_exp_minus_1 take_bit_eq_mod)
  have k: "i div 8 < 16" using assms by simp
  have e: "120 - 8 * (i div 8) + (7 - i mod 8) = 127 - i"
  proof -
    have "i mod 8 < 8" "8 * (i div 8) + i mod 8 = i" by simp_all
    with k show ?thesis by linarith
  qed
  have j: "7 - i mod 8 < 8" by arith
  have "bitAt (bytes_of w) i \<noteq> 0 \<longleftrightarrow> bit (bytes_of w ! (i div 8)) (7 - i mod 8)"
    by (simp add: bitAt_def d m and_one_eq odd_iff_mod_2_eq_one [symmetric]
        bit_iff_odd_drop_bit del: nth_bytes_of)
  also have "\<dots> \<longleftrightarrow> bit w (127 - i)"
    using k e j by (simp add: bit_nth_bytes_of del: nth_bytes_of)
  finally show ?thesis .
qed

definition word_path :: "128 word \<Rightarrow> nat \<Rightarrow> bool list" where
  "word_path w d = map (\<lambda>i. bit w (127 - i)) [0..<d]"

lemma bit_path_bytes_of [bits_simps]: "d \<le> 128 \<Longrightarrow> bit_path (bytes_of w) d = word_path w d"
  by (auto simp: bit_path_def word_path_def bitAt_bytes_of)

lemma length_word_path [simp]: "length (word_path w d) = d"
  by (simp add: word_path_def)

lemma take_word_path: "d \<le> e \<Longrightarrow> take d (word_path w e) = word_path w d"
  by (simp add: word_path_def take_map)

lemma prefix_word_path:
  assumes "d \<le> 128"
  shows "prefix (word_path p d) (word_path a 128) \<longleftrightarrow> drop_bit (128 - d) p = drop_bit (128 - d) a"
proof -
  have "prefix (word_path p d) (word_path a 128) \<longleftrightarrow> word_path p d = word_path a d"
    using assms by (metis length_word_path prefix_def take_word_path append_eq_conv_conj append_take_drop_id)
  also have "\<dots> \<longleftrightarrow> (\<forall>i < d. bit p (127 - i) = bit a (127 - i))"
    by (auto simp: word_path_def)
  also have "\<dots> \<longleftrightarrow> (\<forall>n. bit (drop_bit (128 - d) p) n = bit (drop_bit (128 - d) a) n)"
  proof (rule iffI; intro allI impI)
    fix n assume l: "\<forall>i < d. bit p (127 - i) = bit a (127 - i)"
    show "bit (drop_bit (128 - d) p) n = bit (drop_bit (128 - d) a) n"
    proof (cases "n < d")
      case True
      then have n: "d - 1 - n < d" and e: "127 - (d - 1 - n) = 128 - d + n" using assms by auto
      show ?thesis
        using l [rule_format, OF n, unfolded e] by (simp only: bit_drop_bit_eq comp_def)
    next
      case False
      then show ?thesis using assms by (auto simp: bit_drop_bit_eq dest: bit_imp_le_length)
    qed
  next
    fix i assume r: "\<forall>n. bit (drop_bit (128 - d) p) n = bit (drop_bit (128 - d) a) n" and i: "i < d"
    then have e: "128 - d + (d - 1 - i) = 127 - i" using assms by auto
    show "bit p (127 - i) = bit a (127 - i)"
      using r [rule_format, of "d - 1 - i"] by (simp only: bit_drop_bit_eq comp_def e)
  qed
  also have "\<dots> \<longleftrightarrow> drop_bit (128 - d) p = drop_bit (128 - d) a"
    by (auto intro: bit_word_eqI)
  finally show ?thesis .
qed

subsection \<open>Prefixes in the 128-bit space\<close>

text \<open>
  \<open>prefix_wf\<close> is what every \<open>netip.Prefix\<close> satisfies: the constructor of the package stores
  a length only when it fits the family of the address. \<open>covers p a\<close> says that \<open>a\<close> and the
  address of \<open>p\<close> agree on the first \<open>depth128 p\<close> of their 128 bits.
\<close>

fun prefix_wf :: "prefix \<Rightarrow> bool" where
  "prefix_wf (Prefix NoAddr b) \<longleftrightarrow> b = -1"
| "prefix_wf (Prefix (V4 _) b) \<longleftrightarrow> -1 \<le> b \<and> b \<le> 32"
| "prefix_wf (Prefix (V6 _ z) b) \<longleftrightarrow> z = [] \<and> -1 \<le> b \<and> b \<le> 128"

fun depth128 :: "prefix \<Rightarrow> nat" where
  "depth128 (Prefix (V4 _) b) = nat b + 96"
| "depth128 (Prefix _ b) = nat b"

definition covers :: "prefix \<Rightarrow> addr \<Rightarrow> bool" where
  "covers p a \<longleftrightarrow> drop_bit (128 - depth128 p) (addr128 (paddr p)) = drop_bit (128 - depth128 p) (addr128 a)"

definition prefix_path :: "prefix \<Rightarrow> bool list" where
  "prefix_path p = word_path (addr128 (paddr p)) (depth128 p)"

definition addr_path :: "addr \<Rightarrow> bool list" where
  "addr_path a = word_path (addr128 a) 128"

lemma depth128_le: "prefix_wf p \<Longrightarrow> depth128 p \<le> 128"
  by (cases p rule: prefix_wf.cases) auto

lemma length_prefix_path [simp]: "length (prefix_path p) = depth128 p"
  by (simp add: prefix_path_def)

lemma prefix_path_covers:
  "prefix_wf p \<Longrightarrow> prefix (prefix_path p) (addr_path a) \<longleftrightarrow> covers p a"
  by (simp add: prefix_path_def addr_path_def covers_def prefix_word_path depth128_le)

lemma PrefixFrom_wf [simp]: "prefix_wf (PrefixFrom a b)"
  by (cases a) (auto simp: PrefixFrom_def)

lemma PrefixFrom_valid: "prefix_valid (PrefixFrom a b) \<longleftrightarrow> a \<noteq> NoAddr \<and> 0 \<le> b \<and> b \<le> int (BitLen a)"
  by (auto simp: prefix_valid_def PrefixFrom_def)

lemma ParsePrefix_wf: "ParsePrefix s = Some p \<Longrightarrow> prefix_wf p"
  by (auto simp: ParsePrefix_def split: option.splits if_splits prod.splits)

lemma Masked_wf [simp]: "prefix_wf (Masked p)"
  by (cases p rule: Masked.cases) auto

lemma Masked_valid [simp]:
  "prefix_wf p \<Longrightarrow> prefix_valid p \<Longrightarrow> pbits (Masked p) = pbits p \<and> Is4 (paddr (Masked p)) = Is4 (paddr p)"
  by (cases p rule: Masked.cases) (auto simp: prefix_valid_def PrefixFrom_def)

text \<open>Masking changes no bit of the path.\<close>

lemma depth128_Masked: "prefix_wf p \<Longrightarrow> prefix_valid p \<Longrightarrow> depth128 (Masked p) = depth128 p"
  by (cases p rule: Masked.cases) (auto simp: prefix_valid_def PrefixFrom_def)

lemma prefix_path_Masked:
  assumes "prefix_wf p" "prefix_valid p"
  shows "prefix_path (Masked p) = prefix_path p"
  using assms
proof (cases p rule: Masked.cases)
  case (2 v b)
  with assms have b: "0 \<le> b" "b \<le> 32" by (auto simp: prefix_valid_def)
  have "bit (v4_mapped (v AND NOT (mask (32 - nat b)))) (127 - i) = bit (v4_mapped v) (127 - i)"
    if "i < nat b + 96" for i
    using that b by (auto simp: bits_simps bit_simps dest: bit_imp_le_length)
  with 2 b show ?thesis by (auto simp: prefix_path_def word_path_def PrefixFrom_def)
next
  case (3 w z b)
  with assms have b: "0 \<le> b" "b \<le> 128" by (auto simp: prefix_valid_def)
  have "bit (w AND NOT (mask (128 - nat b))) (127 - i) = bit w (127 - i)" if "i < nat b" for i
    using that b by (auto simp: bit_simps dest: bit_imp_le_length)
  with 3 b show ?thesis by (auto simp: prefix_path_def word_path_def PrefixFrom_def)
qed (auto simp: prefix_valid_def)

subsection \<open>Entries found along a path\<close>

lemma mem_prefixes [simp]: "x \<in> set (prefixes q) \<longleftrightarrow> prefix x q"
  by (simp add: in_set_prefixes)

lemma filter_concat_map: "filter P (concat (map f xs)) = concat (map (\<lambda>x. filter P (f x)) xs)"
  by (induction xs) auto

lemma concat_map_single:
  "distinct xs \<Longrightarrow> x \<in> set xs \<Longrightarrow> (\<And>y. y \<in> set xs \<Longrightarrow> y \<noteq> x \<Longrightarrow> f y = []) \<Longrightarrow> concat (map f xs) = f x"
proof (induction xs)
  case (Cons y ys)
  show ?case
  proof (cases "y = x")
    case True
    with Cons.prems have "\<forall>z \<in> set ys. f z = []" by auto
    then have "concat (map f ys) = []" by simp
    with True show ?thesis by simp
  next
    case False
    with Cons show ?thesis by simp
  qed
qed simp

text \<open>
  Collecting, along a path, what is stored under each prefix of the path gives the entries
  whose key is a prefix of the path, by increasing length, in the order of insertion among
  those of one length: a stable sort by length.
\<close>

lemma concat_prefixes_sort:
  "concat (map (\<lambda>p. filter (\<lambda>x. key x = p) xs) (prefixes q)) =
     sort_key (\<lambda>x. length (key x)) (filter (\<lambda>x. prefix (key x) q) xs)"
  (is "?l = sort_key ?f ?ys")
proof (rule sym, rule properties_for_sort_key)
  have "filter (\<lambda>x. key x = k) ?l = filter (\<lambda>x. key x = k) ?ys" for k
  proof (cases "prefix k q")
    case True
    have "filter (\<lambda>x. key x = k) ?l =
        concat (map (\<lambda>p. filter (\<lambda>x. key x = k) (filter (\<lambda>x. key x = p) xs)) (prefixes q))"
      by (rule filter_concat_map)
    also have "\<dots> = filter (\<lambda>x. key x = k) (filter (\<lambda>x. key x = k) xs)"
      using True by (intro concat_map_single) (auto simp: filter_empty_conv)
    finally show ?thesis using True by (auto intro!: filter_cong)
  next
    case False
    then have "filter (\<lambda>x. key x = k) ?l = []" "filter (\<lambda>x. key x = k) ?ys = []"
      by (auto simp: filter_empty_conv)
    then show ?thesis by simp
  qed
  note by_key = this
  show "mset ?l = mset ?ys"
  proof (rule multiset_eqI)
    fix x
    have "count (mset zs) x = count (mset (filter (\<lambda>y. key y = key x) zs)) x" for zs
      by (induction zs) auto
    then show "count (mset ?l) x = count (mset ?ys) x" using by_key by metis
  qed
  show "filter (\<lambda>x. ?f k = ?f x) ?l = filter (\<lambda>x. ?f k = ?f x) ?ys" if "k \<in> set ?l" for k
  proof -
    have k: "prefix (key k) q" using that by auto
    have same: "?f k = ?f x \<longleftrightarrow> key x = key k" if "prefix (key x) q" for x
      using that k by (metis prefix_length_prefix prefix_order.antisym order_refl)
    have "filter (\<lambda>x. ?f k = ?f x) ?l = filter (\<lambda>x. key x = key k) ?l"
      by (rule filter_cong) (auto simp: same)
    also have "\<dots> = filter (\<lambda>x. key x = key k) ?ys" by (rule by_key)
    also have "\<dots> = filter (\<lambda>x. ?f k = ?f x) ?ys"
      by (rule filter_cong) (auto simp: same)
    finally show ?thesis .
  qed
  show "sorted (map ?f ?l)"
  proof -
    have "sorted (map ?f (concat (map (\<lambda>p. filter (\<lambda>x. key x = p) xs) ps)))"
      if "sorted (map length ps)" for ps :: "'b list list"
      using that
    proof (induction ps)
      case (Cons p ps)
      have "sorted (map ?f (filter (\<lambda>x. key x = p) xs))" by (induction xs) auto
      with Cons show ?case by (auto simp: sorted_append)
    qed simp
    moreover have "sorted (map length (prefixes q))"
      by (induction q) (auto simp: sorted_wrt_map comp_def)
    ultimately show ?thesis by blast
  qed
qed

subsection \<open>The contract of a trie node\<close>

text \<open>
  \<open>child\<close> and \<open>val\<close> read a node, \<open>fresh\<close> is the node the program allocates, and \<open>put\<close> walks
  a path, allocating missing nodes, and updates the value of the node it reaches by \<open>upd\<close>.
\<close>

locale bit_trie =
  fixes child :: "'n \<Rightarrow> bool \<Rightarrow> 'n option"
    and val :: "'n \<Rightarrow> 'v"
    and fresh :: "'n"
    and put :: "bool list \<Rightarrow> 'x \<Rightarrow> 'n \<Rightarrow> 'n"
    and upd :: "'x \<Rightarrow> 'v \<Rightarrow> 'v"
  assumes child_fresh: "child fresh b = None"
    and val_put_here: "val (put [] x n) = upd x (val n)"
    and child_put_here: "child (put [] x n) b = child n b"
    and val_put_below: "val (put (c # cs) x n) = val n"
    and child_put_below: "child (put (c # cs) x n) b =
      (if b = c then Some (put cs x (case child n c of None \<Rightarrow> fresh | Some m \<Rightarrow> m)) else child n b)"
begin

primrec node_at :: "'n \<Rightarrow> bool list \<Rightarrow> 'n option" where
  "node_at n [] = Some n"
| "node_at n (b # bs) = (case child n b of None \<Rightarrow> None | Some m \<Rightarrow> node_at m bs)"

definition val_at :: "'n \<Rightarrow> bool list \<Rightarrow> 'v" where
  "val_at n p = (case node_at n p of None \<Rightarrow> val fresh | Some m \<Rightarrow> val m)"

text \<open>The values of the nodes a lookup visits, from the root down.\<close>

primrec path_vals :: "'n \<Rightarrow> bool list \<Rightarrow> 'v list" where
  "path_vals n [] = [val n]"
| "path_vals n (b # bs) = val n # (case child n b of None \<Rightarrow> [] | Some m \<Rightarrow> path_vals m bs)"

lemma val_at_Nil [simp]: "val_at n [] = val n"
  by (simp add: val_at_def)

lemma val_at_Cons: "val_at n (b # bs) = (case child n b of None \<Rightarrow> val fresh | Some m \<Rightarrow> val_at m bs)"
  by (simp add: val_at_def split: option.splits)

lemma val_at_fresh: "val_at fresh p = val fresh"
  by (cases p) (auto simp: val_at_def child_fresh)

lemma val_at_put [trie_simps]:
  "val_at (put q x n) p = (if p = q then upd x (val_at n p) else val_at n p)"
proof (induction q arbitrary: n p)
  case Nil
  show ?case by (cases p) (auto simp: val_put_here child_put_here val_at_Cons)
next
  case (Cons c cs)
  show ?case
  proof (cases p)
    case Nil
    then show ?thesis by (simp add: val_put_below)
  next
    case (Cons b bs)
    with Cons.IH show ?thesis
      by (auto simp: val_at_Cons child_put_below val_at_fresh split: option.splits)
  qed
qed

lemma val_at_fold_put [trie_simps]:
  "val_at (fold (\<lambda>x n. put (key x) (item x) n) xs n) p =
     fold (\<lambda>x. upd (item x)) (filter (\<lambda>x. key x = p) xs) (val_at n p)"
  by (induction xs arbitrary: n) (auto simp: val_at_put)

text \<open>Below the last node of a lookup only fresh values would follow.\<close>

lemma map_val_at_prefixes:
  "\<exists>k. map (val_at n) (prefixes p) = path_vals n p @ replicate k (val fresh)"
proof (induction p arbitrary: n)
  case Nil
  show ?case by (rule exI [of _ 0]) simp
next
  case (Cons b bs)
  show ?case
  proof (cases "child n b")
    case None
    then have "map (val_at n) (prefixes (b # bs)) = path_vals n (b # bs) @ replicate (Suc (length bs)) (val fresh)"
      by (simp add: comp_def val_at_Cons map_replicate_const del: replicate.simps)
    then show ?thesis by blast
  next
    case (Some m)
    obtain k where "map (val_at m) (prefixes bs) = path_vals m bs @ replicate k (val fresh)"
      using Cons.IH by blast
    with Some have "map (val_at n) (prefixes (b # bs)) = path_vals n (b # bs) @ replicate k (val fresh)"
      by (simp add: comp_def val_at_Cons)
    then show ?thesis by blast
  qed
qed

end

end
