(* ===== verification/Net_Trie.thy ===== *)
theory Net_Trie
  imports Path_Trie
begin

section \<open>The prefix index of objects (internal/ripe/store.go, netTrie)\<close>

text \<open>
  \<open>netTrie\<close> keeps, at the node of every prefix, the objects filed under that prefix. It is an
  instance of \<open>bit_trie\<close> whose update appends; its lookup returns the objects of all covering
  prefixes, least specific first and in the order of insertion within one prefix.
\<close>

datatype 'o netNode =
  NetNode (net_child0: "'o netNode option") (net_child1: "'o netNode option") (net_objs: "'o list")

record 'o netTrie =
  net_root :: "'o netNode"

definition net_fresh :: "'o netNode" where
  "net_fresh = NetNode None None []"

definition net_child :: "'o netNode \<Rightarrow> bool \<Rightarrow> 'o netNode option" where
  "net_child n b = (if b then net_child1 n else net_child0 n)"

definition net_set_child :: "'o netNode \<Rightarrow> bool \<Rightarrow> 'o netNode \<Rightarrow> 'o netNode" where
  "net_set_child n b c =
     (if b then NetNode (net_child0 n) (Some c) (net_objs n)
      else NetNode (Some c) (net_child1 n) (net_objs n))"

definition newNetTrie :: "'o netTrie" where
  "newNetTrie = \<lparr>net_root = net_fresh\<rparr>"

fun net_put :: "bool list \<Rightarrow> 'o \<Rightarrow> 'o netNode \<Rightarrow> 'o netNode" where
  "net_put [] obj n = NetNode (net_child0 n) (net_child1 n) (net_objs n @ [obj])"
| "net_put (b # bs) obj n =
     net_set_child n b (net_put bs obj (case net_child n b of None \<Rightarrow> net_fresh | Some c \<Rightarrow> c))"

definition net_insert :: "'o netTrie \<Rightarrow> prefix \<Rightarrow> 'o \<Rightarrow> 'o netTrie" where
  "net_insert t p0 obj =
     (let p = Masked p0;
          a = (if Is4 (paddr p) then AddrFrom16 (As16 (paddr p)) else paddr p);
          bits = As16 a;
          depth = (if Is4 (paddr p) then pbits p + 96 else pbits p)
      in t\<lparr>net_root := net_put (bit_path bits (nat depth)) obj (net_root t)\<rparr>)"

fun net_walk :: "bool list \<Rightarrow> 'o netNode \<Rightarrow> 'o list \<Rightarrow> 'o list" where
  "net_walk [] n out = out"
| "net_walk (b # bs) n out =
     (case net_child n b of
        None \<Rightarrow> out
      | Some c \<Rightarrow> net_walk bs c (if net_objs c \<noteq> [] then out @ net_objs c else out))"

definition net_lookup :: "'o netTrie \<Rightarrow> addr \<Rightarrow> 'o list" where
  "net_lookup t a0 =
     (let a = (if Is4 a0 then AddrFrom16 (As16 a0) else a0);
          n = net_root t;
          out = (if net_objs n \<noteq> [] then net_objs n else [])
      in net_walk (bit_path (As16 a) 128) n out)"

subsection \<open>An instance of the trie contract\<close>

lemmas net_defs = net_child_def net_set_child_def net_fresh_def

interpretation net: bit_trie net_child net_objs net_fresh net_put "\<lambda>x xs. xs @ [x]"
  by unfold_locales (auto simp: net_defs)

lemma net_walk_concat: "net_walk p n (out @ net_objs n) = out @ concat (net.path_vals n p)"
proof (induction p arbitrary: n out)
  case (Cons b bs)
  show ?case
  proof (cases "net_child n b")
    case (Some c)
    with Cons.IH [of c "out @ net_objs n"] show ?thesis by auto
  qed simp
qed simp

lemma net_lookup_concat:
  "net_lookup t a = concat (map (net.val_at (net_root t)) (prefixes (addr_path a)))"
proof -
  obtain k where k: "map (net.val_at (net_root t)) (prefixes (addr_path a)) =
      net.path_vals (net_root t) (addr_path a) @ replicate k (net_objs net_fresh)"
    using net.map_val_at_prefixes by blast
  have "bit_path (As16 (if Is4 a then AddrFrom16 (As16 a) else a)) 128 = addr_path a"
    by (simp add: addr_path_def As16_def AddrFrom16_def bit_path_bytes_of)
  then show ?thesis
    using net_walk_concat [of "addr_path a" "net_root t" "[]"]
    unfolding k net_lookup_def by (auto simp: Let_def net_fresh_def)
qed

subsection \<open>What a lookup returns\<close>

definition prefix_ok :: "prefix \<Rightarrow> bool" where
  "prefix_ok p \<longleftrightarrow> prefix_wf p \<and> prefix_valid p"

lemma net_insert_root:
  assumes "prefix_ok p"
  shows "net_insert t p x = t\<lparr>net_root := net_put (prefix_path p) x (net_root t)\<rparr>"
proof -
  have wf: "prefix_wf p" "prefix_valid p" using assms by (auto simp: prefix_ok_def)
  have "nat (if Is4 (paddr (Masked p)) then pbits (Masked p) + 96 else pbits (Masked p)) = depth128 p"
    using wf by (cases p rule: Masked.cases) (auto simp: prefix_valid_def PrefixFrom_def)
  moreover have "bit_path (bytes_of (addr128 (paddr (Masked p)))) (depth128 p) = prefix_path p"
    using wf by (simp add: bit_path_bytes_of depth128_le)
      (metis prefix_path_def prefix_path_Masked depth128_Masked)
  ultimately show ?thesis
    by (simp add: net_insert_def Let_def As16_def AddrFrom16_def)
qed

definition net_insert_all :: "(prefix \<times> 'o) list \<Rightarrow> 'o netTrie \<Rightarrow> 'o netTrie" where
  "net_insert_all es t = fold (\<lambda>e t. net_insert t (fst e) (snd e)) es t"

lemma net_insert_all_root:
  assumes "\<forall>e \<in> set es. prefix_ok (fst e)"
  shows "net_insert_all es t =
    t\<lparr>net_root := fold (\<lambda>e. net_put (prefix_path (fst e)) (snd e)) es (net_root t)\<rparr>"
  using assms unfolding net_insert_all_def
  by (induction es arbitrary: t) (simp_all add: net_insert_root)

lemma fold_append_snoc: "fold (\<lambda>x ys. ys @ [f x]) xs ys = ys @ map f xs"
  by (induction xs arbitrary: ys) auto

text \<open>The specification: the entries that cover the address, stably sorted by prefix length.\<close>

definition covering :: "(prefix \<times> 'o) list \<Rightarrow> addr \<Rightarrow> 'o list" where
  "covering es a = map snd (sort_key (\<lambda>e. depth128 (fst e)) (filter (\<lambda>e. covers (fst e) a) es))"

lemma net_lookup_insert_all:
  assumes "\<forall>e \<in> set es. prefix_ok (fst e)"
  shows "net_lookup (net_insert_all es newNetTrie) a = covering es a"
proof -
  let ?key = "\<lambda>e :: prefix \<times> 'a. prefix_path (fst e)"
  have "net.val_at (net_root (net_insert_all es newNetTrie)) = (\<lambda>p. map snd (filter (\<lambda>e. ?key e = p) es))"
    using assms
    by (auto simp: fun_eq_iff net_insert_all_root newNetTrie_def net.val_at_fresh fold_append_snoc
        net.val_at_fold_put [where key = ?key and item = snd]) (simp add: net_fresh_def)
  then have "net_lookup (net_insert_all es newNetTrie) a =
      concat (map (\<lambda>p. map snd (filter (\<lambda>e. ?key e = p) es)) (prefixes (addr_path a)))"
    by (simp add: net_lookup_concat)
  also have "\<dots> = map snd (concat (map (\<lambda>p. filter (\<lambda>e. ?key e = p) es) (prefixes (addr_path a))))"
    by (simp add: map_concat comp_def)
  also have "\<dots> = map snd (sort_key (\<lambda>e. depth128 (fst e)) (filter (\<lambda>e. prefix (?key e) (addr_path a)) es))"
    by (simp add: concat_prefixes_sort)
  also have "filter (\<lambda>e. prefix (?key e) (addr_path a)) es = filter (\<lambda>e. covers (fst e) a) es"
    using assms by (intro filter_cong) (auto simp: prefix_ok_def prefix_path_covers)
  finally show ?thesis by (simp add: covering_def)
qed

text \<open>An insertion adds its object to the lookups of the addresses it covers, and to no other.\<close>

lemma mset_covering_append:
  "mset (covering (es @ fs) a) = mset (covering es a) + mset (covering fs a)"
  by (simp add: covering_def mset_map)

lemma covering_set: "set (covering es a) = {snd e | e. e \<in> set es \<and> covers (fst e) a}"
  by (force simp: covering_def)

end
