(* ===== verification/Cidr.thy ===== *)
theory Cidr
  imports Path_Trie
begin

section \<open>Address ranges as CIDR prefixes (internal/ripe/store.go)\<close>

text \<open>
  \<open>rangeToCIDRs\<close> and its byte-level helpers. The helpers walk the sixteen bytes of an
  address from the last to the first; the model walks the reversed byte list. The first
  lemmas read the byte loops as word arithmetic, which also gives the termination of the
  outer loop: every round moves to a strictly greater address.
\<close>

definition cmpAddr :: "addr \<Rightarrow> addr \<Rightarrow> int" where
  "cmpAddr a b = Compare a b"

fun tz_bytes :: "bytes \<Rightarrow> nat \<Rightarrow> nat" where
  "tz_bytes [] k = k"
| "tz_bytes (b # bs) k =
     (if b = 0 then tz_bytes bs (k + 8)
      else case find (\<lambda>j. b AND push_bit j 1 \<noteq> 0) [0..<8] of
             Some j \<Rightarrow> k + j
           | None \<Rightarrow> tz_bytes bs k)"

definition trailingZeros :: "addr \<Rightarrow> nat \<Rightarrow> nat" where
  "trailingZeros a bitLen = tz_bytes (rev (drop (16 - bitLen div 8) (As16 a))) 0"

fun mask_bytes :: "nat \<Rightarrow> bytes \<Rightarrow> bytes" where
  "mask_bytes sz [] = []"
| "mask_bytes sz (b # bs) =
     (if sz = 0 then b # bs
      else let bits = (if 8 < sz then 8 else sz)
           in (b OR word_of_nat (2 ^ bits - 1)) # mask_bytes (sz - bits) bs)"

definition addrPlusMask :: "addr \<Rightarrow> nat \<Rightarrow> addr" where
  "addrPlusMask a sz =
     (case AddrFromSlice (rev (mask_bytes sz (rev (As16 a)))) of
        None \<Rightarrow> NoAddr
      | Some out \<Rightarrow> if Is4 a then Unmap out else out)"

fun incr_bytes :: "bytes \<Rightarrow> bytes option" where
  "incr_bytes [] = None"
| "incr_bytes (b # bs) =
     (let b' = b + 1 in if b' \<noteq> 0 then Some (b' # bs) else map_option (Cons b') (incr_bytes bs))"

definition addrAddOne :: "addr \<Rightarrow> addr" where
  "addrAddOne a =
     (case incr_bytes (rev (As16 a)) of
        None \<Rightarrow> NoAddr
      | Some bs \<Rightarrow>
          (case AddrFromSlice (rev bs) of
             None \<Rightarrow> NoAddr
           | Some out \<Rightarrow> if Is4 a then Unmap out else out))"

text \<open>The inner loop: the largest size, at most the given one, that does not pass the end.\<close>

fun shrink_size :: "addr \<Rightarrow> addr \<Rightarrow> nat \<Rightarrow> nat" where
  "shrink_size cur stop 0 = 0"
| "shrink_size cur stop (Suc n) =
     (if cmpAddr (addrPlusMask cur (Suc n)) stop \<le> 0 then Suc n else shrink_size cur stop n)"

subsection \<open>The byte loops as word arithmetic\<close>

lemma length_mask_bytes [simp]: "length (mask_bytes sz bs) = length bs"
  by (induction sz bs rule: mask_bytes.induct) auto

lemma bit_low_ones: "n \<le> 8 \<Longrightarrow> bit (word_of_nat (2 ^ n - 1) :: 8 word) j \<longleftrightarrow> j < n"
proof -
  assume n: "n \<le> 8"
  have "(word_of_nat (2 ^ n - 1) :: 8 word) = mask n"
    by (simp add: mask_eq_exp_minus_1 of_nat_diff)
  with n show ?thesis by (auto simp: bit_simps)
qed

lemma bit_mask_bytes:
  "i < length bs \<Longrightarrow> bit (mask_bytes sz bs ! i) j \<longleftrightarrow> bit (bs ! i) j \<or> j < 8 \<and> 8 * i + j < sz"
proof (induction sz bs arbitrary: i rule: mask_bytes.induct)
  case (2 sz b bs)
  show ?case
  proof (cases i)
    case 0
    define m where "m = (if 8 < sz then 8 else sz)"
    then have m: "m \<le> 8" by simp
    show ?thesis
    proof (cases "sz = 0")
      case False
      then have "mask_bytes sz (b # bs) ! i = b OR word_of_nat (2 ^ m - 1)"
        using 0 by (simp add: m_def Let_def del: of_nat_diff)
      then have "bit (mask_bytes sz (b # bs) ! i) j \<longleftrightarrow> bit b j \<or> j < m"
        by (simp only: bit_or_iff bit_low_ones [OF m])
      then show ?thesis using 0 by (auto simp: m_def)
    qed (use 0 in simp)
  next
    case (Suc k)
    with 2 show ?thesis by (auto simp: Let_def)
  qed
qed simp

lemma of_bytes_mask:
  "of_bytes (rev (mask_bytes sz (rev (bytes_of w)))) = w OR mask sz"
proof (rule bit_word_eqI)
  fix n assume "n < LENGTH(128)"
  then have n: "n < 128" by simp
  then have k: "15 - n div 8 < 16" and d: "n div 8 < 16" by auto
  have e: "120 - 8 * (15 - n div 8) + n mod 8 = n" "15 - (15 - n div 8) = n div 8"
    using d mult_div_mod_eq [of 8 n] by linarith+
  have "bit (of_bytes (rev (mask_bytes sz (rev (bytes_of w))))) n \<longleftrightarrow>
      bit (mask_bytes sz (rev (bytes_of w)) ! (n div 8)) (n mod 8)"
    using n d by (simp add: bit_of_bytes rev_nth)
  also have "\<dots> \<longleftrightarrow> bit (bytes_of w ! (15 - n div 8)) (n mod 8) \<or> n < sz"
    using d by (simp add: bit_mask_bytes rev_nth del: nth_bytes_of)
  also have "\<dots> \<longleftrightarrow> bit w n \<or> n < sz"
    using k e by (simp add: bit_nth_bytes_of del: nth_bytes_of)
  also have "\<dots> \<longleftrightarrow> bit (w OR mask sz) n"
    using n by (simp add: bit_simps)
  finally show "bit (of_bytes (rev (mask_bytes sz (rev (bytes_of w))))) n = bit (w OR mask sz) n" .
qed

lemma addrPlusMask_eq:
  "addrPlusMask a sz =
     (let out = V6 (addr128 a OR mask sz) [] in if Is4 a then Unmap out else out)"
  by (simp add: addrPlusMask_def AddrFromSlice_def AddrFrom16_def As16_def of_bytes_mask)

lemma length_incr_bytes: "incr_bytes bs = Some bs' \<Longrightarrow> length bs' = length bs"
  by (induction bs arbitrary: bs') (auto simp: Let_def split: if_splits)

lemma unat_succ_byte: "(b :: 8 word) + 1 \<noteq> 0 \<Longrightarrow> unat (b + 1) = unat b + 1"
  by (metis Suc_eq_plus1 add.commute unatSuc)

lemma max_byte: "(b :: 8 word) + 1 = 0 \<Longrightarrow> unat b = 255"
proof -
  assume "b + 1 = 0"
  then have "b = -1" by (simp add: eq_neg_iff_add_eq_0)
  then show ?thesis by (simp add: unsigned_minus_1_eq_mask mask_eq_exp_minus_1)
qed

lemma le_val_incr: "incr_bytes bs = Some bs' \<Longrightarrow> le_val bs' = le_val bs + 1"
proof (induction bs arbitrary: bs')
  case (Cons b bs)
  show ?case
  proof (cases "b + 1 = 0")
    case True
    with Cons.prems obtain cs where "incr_bytes bs = Some cs" "bs' = 0 # cs"
      by (auto simp: Let_def)
    with Cons.IH True show ?thesis by (simp add: max_byte)
  next
    case False
    with Cons.prems show ?thesis by (auto simp: Let_def unat_succ_byte)
  qed
qed simp

lemma incr_bytes_None: "incr_bytes bs = None \<longleftrightarrow> le_val bs + 1 = 256 ^ length bs"
proof (induction bs)
  case (Cons b bs)
  have l: "le_val bs < 256 ^ length bs" by (rule le_val_less)
  show ?case
  proof (cases "b + 1 = 0")
    case True
    with Cons show ?thesis by (auto simp: max_byte)
  next
    case False
    then have "unat b < 255" using unat_less_pow [of "b + 1"] by (simp add: unat_succ_byte)
    with False l show ?thesis by (simp add: Let_def)
  qed
qed simp

lemma unat_plus_one: "(w :: 128 word) \<noteq> -1 \<Longrightarrow> unat (w + 1) = unat w + 1"
  by (metis Suc_eq_plus1 add.commute eq_neg_iff_add_eq_0 unatSuc)

lemma unat_eq_max: "unat (w :: 128 word) + 1 = 2 ^ 128 \<longleftrightarrow> w = -1"
proof
  assume "unat w + 1 = 2 ^ 128"
  then show "w = -1" using unat_less_pow [of "w + 1"] unat_plus_one [of w] by (cases "w = -1") simp_all
next
  assume "w = -1"
  then show "unat w + 1 = 2 ^ 128" by (simp add: unsigned_minus_1_eq_mask mask_eq_exp_minus_1)
qed

lemma addrAddOne_eq:
  "addrAddOne a =
     (if addr128 a = -1 then NoAddr
      else let out = V6 (addr128 a + 1) [] in if Is4 a then Unmap out else out)"
proof (cases "incr_bytes (rev (As16 a))")
  case None
  then have "unat (addr128 a) + 1 = 2 ^ 128"
    by (simp add: incr_bytes_None As16_def le_val_bytes_of)
  then have "addr128 a = -1" by (simp only: unat_eq_max)
  with None show ?thesis by (simp add: addrAddOne_def)
next
  case (Some bs)
  then have len: "length bs = 16" using length_incr_bytes by fastforce
  have v: "le_val bs = unat (addr128 a) + 1"
    using le_val_incr [OF Some] by (simp add: As16_def le_val_bytes_of)
  have "unat (addr128 a) + 1 \<noteq> 2 ^ 128" using le_val_less [of bs] v len by simp
  then have ne: "addr128 a \<noteq> -1" by (simp only: unat_eq_max not_False_eq_True)
  have "unat (of_bytes (rev bs)) = unat (addr128 a + 1)"
    using len v ne by (simp add: unat_of_bytes unat_plus_one)
  then have "of_bytes (rev bs) = addr128 a + 1" by (simp add: word_unat_eq_iff)
  with Some len ne show ?thesis
    by (simp add: addrAddOne_def AddrFromSlice_def AddrFrom16_def)
qed

subsection \<open>Trailing zeros\<close>

definition le_bit :: "bytes \<Rightarrow> nat \<Rightarrow> bool" where
  "le_bit bs n = bit (bs ! (n div 8)) (n mod 8)"

lemma le_bit_Cons: "le_bit (b # bs) n = (if n < 8 then bit b n else le_bit bs (n - 8))"
proof (cases "n < 8")
  case False
  then obtain m where "n = m + 8" by (metis add.commute le_Suc_ex not_less)
  then have "n div 8 = Suc (m div 8)" "n mod 8 = m mod 8" "n - 8 = m" by simp_all
  with False show ?thesis by (simp add: le_bit_def)
qed (simp add: le_bit_def)

lemma and_bit_byte: "j < 8 \<Longrightarrow> (b :: 8 word) AND push_bit j 1 \<noteq> 0 \<longleftrightarrow> bit b j"
  by (simp add: bit_iff_and_push_bit_not_eq_0)

lemma find_low_bit:
  assumes "(b :: 8 word) \<noteq> 0"
  shows "\<exists>j < 8. find (\<lambda>j. b AND push_bit j 1 \<noteq> 0) [0..<8] = Some j \<and> bit b j \<and> (\<forall>i < j. \<not> bit b i)"
proof -
  obtain n where n: "bit b n" using assms by (auto simp: bit_eq_iff)
  then have "n < 8" using bit_imp_le_length by fastforce
  have "find (\<lambda>j. b AND push_bit j 1 \<noteq> 0) [0..<8] \<noteq> None"
    using n \<open>n < 8\<close> and_bit_byte [of n b] by (auto simp: find_None_iff)
  then obtain j where j: "find (\<lambda>j. b AND push_bit j 1 \<noteq> 0) [0..<8] = Some j" by blast
  then have "j < 8" "b AND push_bit j 1 \<noteq> 0" "\<forall>i < j. b AND push_bit i 1 = 0"
    by (auto simp: find_Some_iff)
  with j show ?thesis using and_bit_byte by (metis less_trans)
qed

lemma tz_bytes_spec:
  "\<exists>t. tz_bytes bs k = k + t \<and> t \<le> 8 * length bs \<and> (\<forall>n < t. \<not> le_bit bs n) \<and>
     (t < 8 * length bs \<longrightarrow> le_bit bs t)"
proof (induction bs arbitrary: k)
  case Nil
  show ?case by simp
next
  case (Cons b bs)
  show ?case
  proof (cases "b = 0")
    case True
    obtain t where "tz_bytes bs (k + 8) = k + 8 + t" "t \<le> 8 * length bs" "\<forall>n < t. \<not> le_bit bs n"
      "t < 8 * length bs \<longrightarrow> le_bit bs t" using Cons.IH by blast
    with True show ?thesis by (intro exI [of _ "8 + t"]) (auto simp: le_bit_Cons)
  next
    case False
    then obtain j where "j < 8" "find (\<lambda>j. b AND push_bit j 1 \<noteq> 0) [0..<8] = Some j"
      "bit b j" "\<forall>i < j. \<not> bit b i" using find_low_bit by blast
    with False show ?thesis
      by (intro exI [of _ j]) (auto simp del: upt_conv_Cons upt.simps simp: le_bit_Cons)
  qed
qed

lemma trailingZeros_spec:
  assumes "bitLen = 32 \<or> bitLen = 128"
  shows "trailingZeros a bitLen \<le> bitLen"
    and "n < trailingZeros a bitLen \<Longrightarrow> \<not> bit (addr128 a) n"
    and "trailingZeros a bitLen < bitLen \<Longrightarrow> bit (addr128 a) (trailingZeros a bitLen)"
proof -
  let ?bs = "rev (drop (16 - bitLen div 8) (As16 a))"
  have len: "8 * length ?bs = bitLen" using assms by auto
  have bits: "le_bit ?bs m = bit (addr128 a) m" if "m < bitLen" for m
  proof -
    have m: "m div 8 < bitLen div 8" "m div 8 < 16" using that assms by auto
    have e: "120 - 8 * (15 - m div 8) + m mod 8 = m"
      using m mult_div_mod_eq [of 8 m] by linarith
    have "?bs ! (m div 8) = bytes_of (addr128 a) ! (15 - m div 8)"
      using m assms by (auto simp: rev_nth As16_def simp del: nth_bytes_of)
    then show ?thesis
      using m e by (simp add: le_bit_def bit_nth_bytes_of del: nth_bytes_of)
  qed
  obtain t where "trailingZeros a bitLen = t" "t \<le> bitLen" "\<forall>n < t. \<not> le_bit ?bs n" "t < bitLen \<longrightarrow> le_bit ?bs t"
    using tz_bytes_spec [of ?bs 0] unfolding trailingZeros_def len by auto
  with bits show "trailingZeros a bitLen \<le> bitLen"
    and "n < trailingZeros a bitLen \<Longrightarrow> \<not> bit (addr128 a) n"
    and "trailingZeros a bitLen < bitLen \<Longrightarrow> bit (addr128 a) (trailingZeros a bitLen)"
    by auto
qed

subsection \<open>The outer loop\<close>

text \<open>The rank orders addresses as \<open>Compare\<close> does, zones apart; every round raises it.\<close>

definition rank :: "addr \<Rightarrow> nat" where
  "rank a = BitLen a * 2 ^ 128 + unat (addr128 a)"

lemma rank_less: "rank a < 129 * 2 ^ 128"
proof -
  have "unat (addr128 a) < 2 ^ 128" using unat_less_pow [of "addr128 a"] by simp
  then show ?thesis by (cases a) (auto simp: rank_def)
qed

lemma v4_mapped_ucast:
  assumes "drop_bit 32 w = (0xFFFF :: 128 word)"
  shows "v4_mapped (ucast w) = w"
proof -
  have m: "(0xFFFF :: 128 word) = mask 16" by (simp add: mask_eq_exp_minus_1)
  have hi: "bit w (32 + n) \<longleftrightarrow> n < 16" for n
  proof -
    have "bit w (32 + n) \<longleftrightarrow> bit (drop_bit 32 w) n" by (simp add: bit_drop_bit_eq)
    also have "\<dots> \<longleftrightarrow> bit (mask 16 :: 128 word) n" using assms m by simp
    also have "\<dots> \<longleftrightarrow> n < 16" by (auto simp: bit_simps)
    finally show ?thesis .
  qed
  show ?thesis
  proof (rule bit_word_eqI)
    fix n assume "n < LENGTH(128)"
    show "bit (v4_mapped (ucast w)) n = bit w n"
    proof (cases "n < 32")
      case True
      then show ?thesis by (simp add: bits_simps bit_simps)
    next
      case False
      then obtain k where "n = 32 + k" by (metis le_Suc_ex not_less)
      with hi [of k] show ?thesis by (auto simp: bits_simps bit_simps)
    qed
  qed
qed

lemma rank_Unmap: "32 * 2 ^ 128 + unat w \<le> rank (Unmap (V6 w z))"
  by (auto simp: rank_def v4_mapped_ucast)

lemma or_mask_ge: "unat (w :: 128 word) \<le> unat (w OR mask n)"
  by (metis word_le_nat_alt le_word_or2 or.commute)

lemma rank_addrPlusMask: "rank a \<le> rank (addrPlusMask a n)"
proof (cases "Is4 a")
  case True
  then have "rank a = 32 * 2 ^ 128 + unat (addr128 a)" by (cases a) (auto simp: rank_def)
  also have "\<dots> \<le> 32 * 2 ^ 128 + unat (addr128 a OR mask n)" using or_mask_ge by simp
  also have "\<dots> \<le> rank (addrPlusMask a n)"
    using True rank_Unmap by (simp add: addrPlusMask_eq del: Unmap.simps)
  finally show ?thesis .
next
  case False
  then have "rank a \<le> 128 * 2 ^ 128 + unat (addr128 a)" by (cases a) (auto simp: rank_def)
  with False or_mask_ge [of "addr128 a" n] show ?thesis by (simp add: addrPlusMask_eq rank_def)
qed

lemma rank_addrAddOne: "IsValid (addrAddOne a) \<Longrightarrow> rank a < rank (addrAddOne a)"
proof -
  assume "IsValid (addrAddOne a)"
  then have ne: "addr128 a \<noteq> -1" by (auto simp: addrAddOne_eq IsValid_def)
  show ?thesis
  proof (cases "Is4 a")
    case True
    then have "rank a < 32 * 2 ^ 128 + unat (addr128 a + 1)"
      using ne by (cases a) (auto simp: rank_def unat_plus_one)
    also have "\<dots> \<le> rank (addrAddOne a)"
      using True ne rank_Unmap by (simp add: addrAddOne_eq del: Unmap.simps)
    finally show ?thesis .
  next
    case False
    then have "rank a \<le> 128 * 2 ^ 128 + unat (addr128 a)" by (cases a) (auto simp: rank_def)
    with False ne show ?thesis by (simp add: addrAddOne_eq rank_def unat_plus_one)
  qed
qed

function cidr_loop :: "nat \<Rightarrow> addr \<Rightarrow> addr \<Rightarrow> prefix list" where
  "cidr_loop bitLen cur stop =
     (if cmpAddr cur stop \<le> 0 then
        let tz = trailingZeros cur bitLen;
            sz = shrink_size cur stop (if bitLen < tz then bitLen else tz);
            p = PrefixFrom cur (int bitLen - int sz);
            lst = addrPlusMask cur sz
        in if 0 \<le> cmpAddr lst stop then [p]
           else let cur' = addrAddOne lst
                in if \<not> IsValid cur' then [p] else p # cidr_loop bitLen cur' stop
      else [])"
  by pat_completeness auto
termination
proof (relation "measure (\<lambda>(bitLen, cur, stop). 129 * 2 ^ 128 - rank cur)", goal_cases)
  case (2 bitLen cur stop tz sz p lst cur')
  then have "rank cur < rank cur'"
    using rank_addrPlusMask rank_addrAddOne by (metis order_le_less_trans)
  with rank_less [of cur'] show ?case by simp
qed simp

declare cidr_loop.simps [simp del]

definition rangeToCIDRs :: "addr \<Rightarrow> addr \<Rightarrow> prefix list" where
  "rangeToCIDRs start stop =
     (if Is6 start \<noteq> Is6 stop then []
      else cidr_loop (if Is6 start then 128 else 32) start stop)"

end
