(* ===== verification/Cidr_Props.thy ===== *)
theory Cidr_Props
  imports Cidr
begin

section \<open>Properties of the range decomposition\<close>

text \<open>
  IPv4 and IPv6 addresses are two instances of one contract, \<open>addr_family\<close>: an embedding of
  the words of some length into addresses on which the byte-level helpers compute the word
  operations. The decomposition is proved correct once, for every such family.
\<close>

subsection \<open>Aligned blocks of words\<close>

lemma nat_div_eq_iff:
  fixes m y q :: nat
  assumes "0 < m"
  shows "y div m = q \<longleftrightarrow> m * q \<le> y \<and> y < m * (q + 1)"
proof
  assume "y div m = q"
  then have "m * q + y mod m = y" by auto
  moreover have "y mod m < m" using assms by simp
  ultimately show "m * q \<le> y \<and> y < m * (q + 1)" by (simp add: distrib_left)
next
  assume "m * q \<le> y \<and> y < m * (q + 1)"
  then show "y div m = q" by (intro div_nat_eqI) auto
qed

lemma aligned_unat:
  fixes x :: "'a::len word"
  assumes "\<forall>k < n. \<not> bit x k"
  shows "\<exists>q. unat x = 2 ^ n * q"
proof -
  have "take_bit n x = 0" by (rule bit_word_eqI) (use assms in \<open>auto simp: bit_take_bit_iff\<close>)
  then have "unat (take_bit n x) = 0" by simp
  then have "take_bit n (unat x) = 0" by (simp only: unsigned_take_bit_eq)
  then have "2 ^ n dvd unat x" by (simp add: take_bit_eq_mod mod_0_imp_dvd)
  then show ?thesis by (auto elim: dvdE)
qed

lemma aligned_room:
  fixes x :: "'a::len word"
  assumes "\<forall>k < n. \<not> bit x k" "n \<le> LENGTH('a)"
  shows "unat x + 2 ^ n \<le> 2 ^ LENGTH('a)"
proof -
  obtain q where q: "unat x = 2 ^ n * q" using aligned_unat [OF assms(1)] by blast
  have L: "(2 :: nat) ^ LENGTH('a) = 2 ^ n * 2 ^ (LENGTH('a) - n)"
    using assms(2) by (simp flip: power_add)
  have "2 ^ n * q < (2 :: nat) ^ n * 2 ^ (LENGTH('a) - n)" using unat_less_pow [of x] q L by simp
  then have "q + 1 \<le> 2 ^ (LENGTH('a) - n)" by simp
  then have "2 ^ n * (q + 1) \<le> 2 ^ n * (2 ^ (LENGTH('a) - n) :: nat)" by (rule mult_le_mono2)
  then show ?thesis using q L by simp
qed

lemma unat_or_mask:
  fixes x :: "'a::len word"
  assumes "\<forall>k < n. \<not> bit x k" "n \<le> LENGTH('a)"
  shows "unat (x OR mask n) = unat x + (2 ^ n - 1)"
proof -
  have "x AND mask n = 0" by (rule bit_word_eqI) (use assms in \<open>auto simp: bit_simps\<close>)
  then have "x OR mask n = x + mask n" by (simp add: disjunctive_add_eq_or)
  moreover have r: "unat x + (2 ^ n - 1) < 2 ^ LENGTH('a)"
  proof -
    have "0 < (2 :: nat) ^ n" by simp
    with aligned_room [OF assms] show ?thesis by linarith
  qed
  moreover have "unat (mask n :: 'a word) = 2 ^ n - 1"
  proof -
    have "(mask n :: 'a word) = word_of_nat (2 ^ n - 1)"
      by (simp add: mask_eq_exp_minus_1 of_nat_diff)
    moreover have "(2 :: nat) ^ n - 1 < 2 ^ LENGTH('a)" using r by linarith
    ultimately show ?thesis by (simp only: unsigned_of_nat take_bit_nat_eq_self of_nat_id)
  qed
  ultimately show ?thesis by (simp add: unat_word_ariths)
qed

lemma block_iff:
  fixes x y :: "'a::len word"
  assumes "\<forall>k < n. \<not> bit x k" "n \<le> LENGTH('a)"
  shows "drop_bit n x = drop_bit n y \<longleftrightarrow> x \<le> y \<and> y \<le> x OR mask n"
proof -
  obtain q where q: "unat x = 2 ^ n * q" using aligned_unat [OF assms(1)] by blast
  have "drop_bit n x = drop_bit n y \<longleftrightarrow> unat x div 2 ^ n = unat y div 2 ^ n"
    by (simp only: word_unat_eq_iff unat_drop_bit)
  also have "\<dots> \<longleftrightarrow> unat y div 2 ^ n = q" using q by auto
  also have "\<dots> \<longleftrightarrow> 2 ^ n * q \<le> unat y \<and> unat y < 2 ^ n * (q + 1)"
    by (rule nat_div_eq_iff) simp
  also have "\<dots> \<longleftrightarrow> unat x \<le> unat y \<and> unat y \<le> unat x + (2 ^ n - 1)"
  proof -
    have "0 < (2 :: nat) ^ n" "2 ^ n * (q + 1) = 2 ^ n * q + 2 ^ n" by simp_all
    then show ?thesis unfolding q by linarith
  qed
  finally show ?thesis using unat_or_mask [OF assms] by (simp add: word_le_nat_alt)
qed

lemma bit_add_pow_low:
  fixes c d :: "'a::len word"
  assumes "\<forall>k < m. \<not> bit c k" "\<not> bit c m" "m < LENGTH('a)" "unat d = unat c + 2 ^ m"
  shows "bit d m" "\<forall>k < m. \<not> bit d k"
proof -
  have "c AND push_bit m 1 = 0"
    by (rule bit_word_eqI) (use assms(2) in \<open>auto simp: bit_simps\<close>)
  then have "c OR push_bit m 1 = c + push_bit m 1" by (simp add: disjunctive_add_eq_or)
  moreover have "unat (c + push_bit m 1) = unat d"
    using assms(3,4) unat_less_pow [of d] by (simp add: unat_word_ariths push_bit_eq_mult unat_pow2)
  ultimately have "d = c OR push_bit m 1" by (simp add: word_unat_eq_iff)
  then show "bit d m" "\<forall>k < m. \<not> bit d k" using assms by (auto simp: bit_simps)
qed

lemma bit_add_pow_carry:
  fixes c d :: "'a::len word"
  assumes "\<forall>k < m. \<not> bit c k" "bit c m" "unat d = unat c + 2 ^ m" "n \<le> m"
  shows "\<not> bit d n"
proof -
  obtain q where q: "unat c = 2 ^ m * q" using aligned_unat [OF assms(1)] by blast
  with assms(2) have "odd q" by (simp add: bit_odd_unat)
  then obtain r where r: "q + 1 = 2 * r" by (metis even_plus_one_iff evenE)
  have "unat d = 2 ^ m * (q + 1)" using assms(3) q by simp
  also have "\<dots> = 2 ^ n * 2 ^ (m - n) * (2 * r)"
    using assms(4) by (simp only: r flip: power_add) simp
  also have "\<dots> = 2 ^ n * (2 * (2 ^ (m - n) * r))" by simp
  finally have "unat d div 2 ^ n = 2 * (2 ^ (m - n) * r)" by simp
  then show ?thesis by (simp add: bit_odd_unat)
qed

subsection \<open>The contract of an address family\<close>

locale addr_family =
  fixes mk :: "'a::len word \<Rightarrow> addr"
  assumes cmp_mk: "cmpAddr (mk x) (mk y) = (if x < y then -1 else if y < x then 1 else 0)"
    and plus_mk: "n \<le> LENGTH('a) \<Longrightarrow> addrPlusMask (mk x) n = mk (x OR mask n)"
    and succ_mk: "x \<noteq> -1 \<Longrightarrow> addrAddOne (mk x) = mk (x + 1)"
    and tz_le: "trailingZeros (mk x) LENGTH('a) \<le> LENGTH('a)"
    and tz_low: "n < trailingZeros (mk x) LENGTH('a) \<Longrightarrow> \<not> bit x n"
    and tz_bit: "trailingZeros (mk x) LENGTH('a) < LENGTH('a) \<Longrightarrow> bit x (trailingZeros (mk x) LENGTH('a))"
    and valid_mk: "IsValid (mk x)"
    and covers_mk: "n \<le> LENGTH('a) \<Longrightarrow>
      covers (PrefixFrom (mk x) (int LENGTH('a) - int n)) (mk y) \<longleftrightarrow> drop_bit n x = drop_bit n y"
    and depth_mk: "n \<le> LENGTH('a) \<Longrightarrow> depth128 (PrefixFrom (mk x) (int LENGTH('a) - int n)) = 128 - n"
begin

definition block_size :: "'a word \<Rightarrow> 'a word \<Rightarrow> nat" where
  "block_size x e = shrink_size (mk x) (mk e) (trailingZeros (mk x) LENGTH('a))"

lemma shrink_spec:
  assumes "m \<le> LENGTH('a)" "x \<le> e"
  shows "shrink_size (mk x) (mk e) m \<le> m \<and> x OR mask (shrink_size (mk x) (mk e) m) \<le> e \<and>
    (\<forall>n. shrink_size (mk x) (mk e) m < n \<longrightarrow> n \<le> m \<longrightarrow> e < x OR mask n)"
  using assms
proof (induction m)
  case 0
  then show ?case by simp
next
  case (Suc m)
  then show ?case
    by (auto simp: plus_mk cmp_mk le_Suc_eq not_le split: if_splits)
qed

lemma block_size_aligned:
  assumes "x \<le> e"
  shows "\<forall>k < block_size x e. \<not> bit x k" and "block_size x e \<le> LENGTH('a)"
  using shrink_spec [OF tz_le assms, of x] tz_le [of x] tz_low [of _ x]
  unfolding block_size_def by (meson less_le_trans le_trans)+

lemma block_size_fits: "x \<le> e \<Longrightarrow> x OR mask (block_size x e) \<le> e"
  using shrink_spec [OF tz_le, of x e] unfolding block_size_def by blast

lemma block_size_max:
  assumes "x \<le> e" "block_size x e < n" "n \<le> LENGTH('a)" "\<forall>k < n. \<not> bit x k"
  shows "e < x OR mask n"
proof -
  have "n \<le> trailingZeros (mk x) LENGTH('a)"
    using assms(3,4) tz_bit [of x] by (meson leD leI less_le_trans)
  then show ?thesis using assms shrink_spec [OF tz_le assms(1), of x] unfolding block_size_def by blast
qed

text \<open>One round of the loop, on the words of the family.\<close>

lemma cidr_loop_mk:
  "cidr_loop LENGTH('a) (mk x) (mk e) =
     (if x \<le> e then
        let n = block_size x e; p = PrefixFrom (mk x) (int LENGTH('a) - int n); l = x OR mask n
        in if l = e then [p] else p # cidr_loop LENGTH('a) (mk (l + 1)) (mk e)
      else [])"
proof (cases "x \<le> e")
  case True
  let ?n = "block_size x e"
  have n: "?n \<le> LENGTH('a)" using True by (rule block_size_aligned)
  have l: "x OR mask ?n \<le> e" using True by (rule block_size_fits)
  have tz: "\<not> LENGTH('a) < trailingZeros (mk x) LENGTH('a)" using tz_le [of x] by simp
  show ?thesis
  proof (cases "x OR mask ?n = e")
    case True
    then show ?thesis
      using \<open>x \<le> e\<close> n tz
      by (subst cidr_loop.simps) (simp add: cmp_mk plus_mk Let_def flip: block_size_def)
  next
    case False
    then have less: "x OR mask ?n < e" using l by simp
    then have "x OR mask ?n \<noteq> -1" by (metis word_order.extremum_strict)
    then have "addrAddOne (mk (x OR mask ?n)) = mk ((x OR mask ?n) + 1)" by (rule succ_mk)
    with False less show ?thesis
      using \<open>x \<le> e\<close> n tz
      by (subst cidr_loop.simps) (simp add: cmp_mk plus_mk Let_def valid_mk flip: block_size_def)
  qed
next
  case False
  then show ?thesis by (subst cidr_loop.simps) (simp add: cmp_mk)
qed

text \<open>Where the block of a round ends and the next one starts.\<close>

lemma block_end:
  assumes "x \<le> e"
  shows "unat (x OR mask (block_size x e)) = unat x + (2 ^ block_size x e - 1)"
  using block_size_aligned [OF assms] by (rule unat_or_mask)

lemma next_start:
  assumes "x \<le> e" "x OR mask (block_size x e) \<noteq> e"
  shows "unat ((x OR mask (block_size x e)) + 1) = unat x + 2 ^ block_size x e"
    and "unat x + 2 ^ block_size x e \<le> unat e"
proof -
  have "x OR mask (block_size x e) < e" using block_size_fits [OF assms(1)] assms(2) by simp
  then have less: "unat (x OR mask (block_size x e)) < unat e" by (simp add: word_less_nat_alt)
  then have "unat (x OR mask (block_size x e)) + 1 < 2 ^ LENGTH('a)"
    using unat_less_pow [of e] by linarith
  then have "unat ((x OR mask (block_size x e)) + 1) = unat (x OR mask (block_size x e)) + 1"
    by (simp add: unat_word_ariths)
  moreover have "0 < (2 :: nat) ^ block_size x e" by simp
  ultimately show "unat ((x OR mask (block_size x e)) + 1) = unat x + 2 ^ block_size x e"
    and "unat x + 2 ^ block_size x e \<le> unat e"
    using block_end [OF assms(1)] less by linarith+
qed

lemma covers_block:
  assumes "x \<le> e"
  shows "covers (PrefixFrom (mk x) (int LENGTH('a) - int (block_size x e))) (mk y) \<longleftrightarrow>
     x \<le> y \<and> y \<le> x OR mask (block_size x e)"
  using block_size_aligned [OF assms] by (simp add: covers_mk block_iff)

lemma cidr_induct [case_names beyond final step]:
  assumes "\<And>x. \<not> x \<le> e \<Longrightarrow> P x"
    and "\<And>x. x \<le> e \<Longrightarrow> x OR mask (block_size x e) = e \<Longrightarrow> P x"
    and "\<And>x. x \<le> e \<Longrightarrow> x OR mask (block_size x e) \<noteq> e \<Longrightarrow> P ((x OR mask (block_size x e)) + 1) \<Longrightarrow> P x"
  shows "P x"
proof (induction "unat e - unat x" arbitrary: x rule: less_induct)
  case less
  show ?case
  proof (cases "x \<le> e \<and> x OR mask (block_size x e) \<noteq> e")
    case True
    then have "unat e - unat ((x OR mask (block_size x e)) + 1) < unat e - unat x"
    proof -
      have "0 < (2 :: nat) ^ block_size x e" by simp
      with True next_start [of x e] show ?thesis by linarith
    qed
    with less True assms(3) show ?thesis by blast
  next
    case False
    with assms show ?thesis by blast
  qed
qed

text \<open>Every address of the range is covered by exactly one prefix, no other is covered.\<close>

lemma cidr_count:
  "length (filter (\<lambda>p. covers p (mk y)) (cidr_loop LENGTH('a) (mk x) (mk e))) =
     (if x \<le> y \<and> y \<le> e then 1 else 0)"
proof (induction x rule: cidr_induct [of e])
  case (beyond x)
  then show ?case by (auto simp: cidr_loop_mk)
next
  case (final x)
  then show ?case by (simp add: cidr_loop_mk covers_block)
next
  case (step x)
  let ?l = "x OR mask (block_size x e)"
  have "?l + 1 \<le> y \<longleftrightarrow> \<not> y \<le> ?l"
  proof -
    have "0 < (2 :: nat) ^ block_size x e" by simp
    with next_start [OF step.hyps] block_end [OF step.hyps(1)] show ?thesis
      unfolding word_le_nat_alt by linarith
  qed
  moreover have "?l \<le> e" "x \<le> ?l" using block_size_fits [OF step.hyps(1)] by (auto simp: le_word_or2)
  ultimately show ?case
    using step by (subst cidr_loop_mk) (auto simp: covers_block Let_def)
qed

subsubsection \<open>Minimality\<close>

text \<open>
  A round that starts at \<open>c\<close> takes the largest aligned block from \<open>c\<close> on; that the block is
  also not the right half of a block inside the range follows from where the loop started:
  when \<open>c\<close> is aligned to exactly \<open>2^n\<close> and the block of that size fits, less than \<open>2^n\<close>
  addresses of the range precede \<open>c\<close>.
\<close>

definition no_left_half :: "'a word \<Rightarrow> 'a word \<Rightarrow> 'a word \<Rightarrow> bool" where
  "no_left_half x0 e c \<longleftrightarrow> (\<forall>n < LENGTH('a). (\<forall>k < n. \<not> bit c k) \<longrightarrow> bit c n \<longrightarrow> c OR mask n \<le> e \<longrightarrow>
     unat c < unat x0 + 2 ^ n)"

lemma no_left_half_step:
  assumes inv: "no_left_half x0 e c" and c: "c \<le> e" "c OR mask (block_size c e) \<noteq> e"
  shows "no_left_half x0 e ((c OR mask (block_size c e)) + 1)"
  unfolding no_left_half_def
proof (intro allI impI)
  fix n
  let ?m = "block_size c e" and ?d = "(c OR mask (block_size c e)) + 1"
  assume n: "n < LENGTH('a)" "\<forall>k < n. \<not> bit ?d k" "bit ?d n" "?d OR mask n \<le> e"
  have d: "unat ?d = unat c + 2 ^ ?m" using c by (rule next_start)
  have al: "\<forall>k < ?m. \<not> bit c k" "?m \<le> LENGTH('a)" using c(1) by (rule block_size_aligned)+
  have "unat c + 2 ^ ?m < 2 ^ LENGTH('a)" using d unat_less_pow [of ?d] by simp
  then have "(2 :: nat) ^ ?m < 2 ^ LENGTH('a)" by linarith
  then have m: "?m < LENGTH('a)" by simp
  show "unat ?d < unat x0 + 2 ^ n"
  proof (cases "bit c ?m")
    case True
    then have "unat c < unat x0 + 2 ^ ?m"
      using inv al m block_size_fits [OF c(1)] unfolding no_left_half_def by blast
    moreover have "?m < n"
      using bit_add_pow_carry [OF al(1) True d] n(3) by (meson not_le)
    moreover have "(2 :: nat) * 2 ^ ?m \<le> 2 ^ n"
      using \<open>?m < n\<close> by (metis Suc_leI one_le_numeral power_Suc power_increasing)
    ultimately show ?thesis using d by linarith
  next
    case False
    then have "n = ?m"
      using bit_add_pow_low [OF al(1) False m d] n by (metis linorder_neqE_nat)
    have "\<forall>k < Suc ?m. \<not> bit c k" using al False by (auto simp: less_Suc_eq)
    then have "e < c OR mask (Suc ?m)" "unat (c OR mask (Suc ?m)) = unat c + (2 ^ Suc ?m - 1)"
      using block_size_max [OF c(1), of "Suc ?m"] m unat_or_mask [of "Suc ?m" c] by (simp_all add: Suc_le_eq)
    moreover have "unat (?d OR mask n) = unat ?d + (2 ^ ?m - 1)"
      using unat_or_mask [of n ?d] n \<open>n = ?m\<close> by simp
    moreover have "0 < (2 :: nat) ^ ?m" by simp
    ultimately have "e < ?d OR mask n" using d unfolding word_less_nat_alt by simp
    with n(4) show ?thesis by simp
  qed
qed

lemma left_half_outside:
  assumes "\<forall>k < n. \<not> bit c k" "bit c n" "unat c < unat x0 + 2 ^ n"
  shows "\<exists>z. z < x0 \<and> drop_bit (Suc n) z = drop_bit (Suc n) (c :: 'a word)"
proof -
  obtain q where q: "unat c = 2 ^ n * q" using aligned_unat [OF assms(1)] by blast
  with assms(2) have "odd q" by (simp add: bit_odd_unat)
  then obtain r where r: "q = 2 * r + 1" by (metis oddE)
  define z :: "'a word" where "z = word_of_nat (2 ^ Suc n * r)"
  have c: "unat c = 2 ^ Suc n * r + 2 ^ n" using q r by simp
  then have "2 ^ Suc n * r < 2 ^ LENGTH('a)" using unat_less_pow [of c] by linarith
  then have z: "unat z = 2 ^ Suc n * r"
    unfolding z_def by (simp only: unsigned_of_nat take_bit_nat_eq_self of_nat_id)
  have "unat c div 2 ^ Suc n = r" unfolding c by simp
  moreover have "unat z div 2 ^ Suc n = r" unfolding z by simp
  ultimately have "drop_bit (Suc n) z = drop_bit (Suc n) c"
    by (simp only: word_unat_eq_iff unat_drop_bit)
  moreover have "z < x0" using assms(3) c z unfolding word_less_nat_alt by linarith
  ultimately show ?thesis by blast
qed

lemma block_maximal:
  assumes "no_left_half x0 e c" "c \<le> e" "block_size c e < LENGTH('a)"
  shows "\<exists>z. \<not> (x0 \<le> z \<and> z \<le> e) \<and>
    drop_bit (Suc (block_size c e)) z = drop_bit (Suc (block_size c e)) c"
proof -
  let ?n = "block_size c e"
  have al: "\<forall>k < ?n. \<not> bit c k" using assms(2) by (rule block_size_aligned)
  show ?thesis
  proof (cases "bit c ?n")
    case True
    then have "unat c < unat x0 + 2 ^ ?n"
      using assms al block_size_fits [OF assms(2)] unfolding no_left_half_def by blast
    with left_half_outside [OF al True] show ?thesis by (meson leD)
  next
    case False
    then have al': "\<forall>k < Suc ?n. \<not> bit c k" using al by (auto simp: less_Suc_eq)
    have n: "Suc ?n \<le> LENGTH('a)" using assms(3) by simp
    have "e < c OR mask (Suc ?n)" using block_size_max [OF assms(2) _ n al'] by simp
    moreover have "drop_bit (Suc ?n) c = drop_bit (Suc ?n) (c OR mask (Suc ?n))"
      unfolding block_iff [OF al' n] by (simp add: le_word_or2)
    ultimately show ?thesis by (metis leD)
  qed
qed

lemma cidr_blocks:
  assumes "no_left_half x0 e x" "g \<in> set (cidr_loop LENGTH('a) (mk x) (mk e))"
  shows "\<exists>c n. g = PrefixFrom (mk c) (int LENGTH('a) - int n) \<and> n \<le> LENGTH('a) \<and> x \<le> c \<and> c \<le> e \<and>
    (n < LENGTH('a) \<longrightarrow> (\<exists>z. \<not> (x0 \<le> z \<and> z \<le> e) \<and> drop_bit (Suc n) z = drop_bit (Suc n) c))"
  using assms
proof (induction x rule: cidr_induct [of e])
  case (beyond x)
  then show ?case by (simp add: cidr_loop_mk)
next
  case (final x)
  then show ?case
    using block_maximal [of x0 e x] block_size_aligned(2) [of x e]
    by (intro exI [of _ x] exI [of _ "block_size x e"]) (simp add: cidr_loop_mk)
next
  case (step x)
  let ?l = "x OR mask (block_size x e)"
  consider "g = PrefixFrom (mk x) (int LENGTH('a) - int (block_size x e))"
    | "g \<in> set (cidr_loop LENGTH('a) (mk (?l + 1)) (mk e))"
    using step.prems(2) step.hyps by (subst (asm) cidr_loop_mk) (auto simp: Let_def)
  then show ?case
  proof cases
    case 1
    then show ?thesis
      using block_maximal [of x0 e x] block_size_aligned(2) [of x e] step.prems(1) step.hyps(1)
      by (intro exI [of _ x] exI [of _ "block_size x e"]) simp
  next
    case 2
    have "no_left_half x0 e (?l + 1)" using step.prems(1) step.hyps by (rule no_left_half_step)
    moreover have "x \<le> ?l + 1"
      using next_start(1) [OF step.hyps] unfolding word_le_nat_alt by simp
    ultimately show ?thesis using step.IH 2 by (meson order_trans)
  qed
qed

lemma no_left_half_start: "no_left_half x e x"
  by (simp add: no_left_half_def)

text \<open>Two prefixes that share an address are nested: the shorter covers what the longer covers.\<close>

lemma covers_nested:
  assumes "prefix_wf p" "prefix_wf q" "covers p a" "covers q a" "depth128 p \<le> depth128 q" "covers q b"
  shows "covers p b"
proof -
  have "prefix (prefix_path p) (addr_path a)" "prefix (prefix_path q) (addr_path a)"
    using assms by (simp_all add: prefix_path_covers)
  then have "prefix (prefix_path p) (prefix_path q)"
    using assms(5) by (metis length_prefix_path prefix_length_prefix)
  moreover have "prefix (prefix_path q) (addr_path b)" using assms by (simp add: prefix_path_covers)
  ultimately have "prefix (prefix_path p) (addr_path b)" by (rule prefix_order.trans)
  then show ?thesis using assms(1) by (simp add: prefix_path_covers)
qed

lemma cidr_unique:
  assumes "g \<in> set (cidr_loop LENGTH('a) (mk x) (mk e))" "h \<in> set (cidr_loop LENGTH('a) (mk x) (mk e))"
    and "covers g (mk y)" "covers h (mk y)"
  shows "g = h"
proof (rule ccontr)
  assume "g \<noteq> h"
  let ?fs = "filter (\<lambda>p. covers p (mk y)) (cidr_loop LENGTH('a) (mk x) (mk e))"
  have "{g, h} \<subseteq> set ?fs" using assms by simp
  then have "card {g, h} \<le> length ?fs" by (meson List.finite_set card_length card_mono le_trans)
  with \<open>g \<noteq> h\<close> show False using cidr_count [of y x e] by (auto split: if_splits)
qed

lemma cidr_distinct: "distinct (cidr_loop LENGTH('a) (mk x) (mk e))"
  unfolding distinct_count_atmost_1
proof
  fix g
  let ?gs = "cidr_loop LENGTH('a) (mk x) (mk e)"
  show "count (mset ?gs) g = (if g \<in> set ?gs then 1 else 0)"
  proof (cases "g \<in> set ?gs")
    case True
    then obtain c n where c: "g = PrefixFrom (mk c) (int LENGTH('a) - int n)" "n \<le> LENGTH('a)"
      using cidr_blocks [OF no_left_half_start] by blast
    then have "covers g (mk c)" by (simp add: covers_mk)
    then have "filter (\<lambda>p. p = g) (filter (\<lambda>p. covers p (mk c)) ?gs) = filter (\<lambda>p. p = g) ?gs"
      by (auto intro: filter_cong)
    then have "length (filter (\<lambda>p. p = g) ?gs) \<le> 1"
      using length_filter_le [of "\<lambda>p. p = g" "filter (\<lambda>p. covers p (mk c)) ?gs"] cidr_count [of c x e]
      by (auto split: if_splits)
    moreover have "count (mset zs) g = length (filter (\<lambda>p. p = g) zs)" for zs
      by (induction zs) auto
    ultimately show ?thesis using True by (auto simp: le_Suc_eq filter_empty_conv)
  qed (simp add: count_mset_0_iff)
qed

lemma cidr_minimal:
  assumes wf: "\<forall>p \<in> set ps. prefix_wf p"
    and cov: "\<And>y. (\<exists>p \<in> set ps. covers p (mk y)) \<longleftrightarrow> x \<le> y \<and> y \<le> e"
  shows "length (cidr_loop LENGTH('a) (mk x) (mk e)) \<le> length ps"
proof -
  let ?gs = "cidr_loop LENGTH('a) (mk x) (mk e)"
  have ex: "\<exists>b c. b \<in> set ps \<and> covers b (mk c) \<and> (\<forall>y. covers b (mk y) \<longrightarrow> covers g (mk y))" if g: "g \<in> set ?gs" for g
  proof -
    obtain c n where c: "g = PrefixFrom (mk c) (int LENGTH('a) - int n)" "n \<le> LENGTH('a)" "x \<le> c" "c \<le> e"
      and z: "n < LENGTH('a) \<longrightarrow> (\<exists>z. \<not> (x \<le> z \<and> z \<le> e) \<and> drop_bit (Suc n) z = drop_bit (Suc n) c)"
      using cidr_blocks [OF no_left_half_start g] by blast
    obtain b where b: "b \<in> set ps" "covers b (mk c)" using cov c by blast
    have gc: "covers g (mk c)" "prefix_wf g" using c by (simp_all add: covers_mk)
    show ?thesis
    proof (cases "depth128 g \<le> depth128 b")
      case True
      then have "\<forall>y. covers b (mk y) \<longrightarrow> covers g (mk y)"
        using covers_nested [OF gc(2) _ gc(1) b(2) True] wf b(1) by blast
      with b show ?thesis by blast
    next
      case False
      have "n = LENGTH('a)"
      proof (rule ccontr)
        assume "n \<noteq> LENGTH('a)"
        then have n: "Suc n \<le> LENGTH('a)" using c(2) by simp
        then obtain z where z: "\<not> (x \<le> z \<and> z \<le> e)" "drop_bit (Suc n) z = drop_bit (Suc n) c"
          using z by (auto simp: Suc_le_eq)
        let ?p = "PrefixFrom (mk c) (int LENGTH('a) - int (Suc n))"
        have "depth128 ?p = 128 - Suc n" using n by (rule depth_mk)
        then have "depth128 b \<le> depth128 ?p" using False c(1,2) by (simp add: depth_mk)
        moreover have "covers ?p (mk c)" "covers ?p (mk z)"
          using z(2) covers_mk [OF n] by (simp_all del: of_nat_Suc)
        ultimately have "covers b (mk z)" using covers_nested [of b ?p] wf b by simp
        with cov z(1) b(1) show False by blast
      qed
      then have "covers g (mk y)" for y using c covers_mk [of n c y] by simp
      with b show ?thesis by blast
    qed
  qed
  then obtain f where f: "\<forall>g \<in> set ?gs. f g \<in> set ps \<and> (\<exists>c. covers (f g) (mk c)) \<and>
      (\<forall>y. covers (f g) (mk y) \<longrightarrow> covers g (mk y))" by metis
  have "inj_on f (set ?gs)"
    by (rule inj_onI) (metis f cidr_unique)
  then have "card (set ?gs) \<le> card (set ps)"
    using f by (intro card_inj_on_le) auto
  then show ?thesis using cidr_distinct [of x e] card_length [of ps] by (simp add: distinct_card)
qed

end

subsection \<open>IPv4 and IPv6\<close>

lemma v4_mapped_or_mask:
  assumes "n \<le> 32"
  shows "v4_mapped v OR mask n = v4_mapped (v OR mask n)"
  by (rule bit_word_eqI) (use assms in \<open>auto simp: bit_simps bits_simps dest: bit_imp_le_length\<close>)

lemma v4_mapped_succ: "v \<noteq> -1 \<Longrightarrow> v4_mapped v + 1 = v4_mapped (v + 1)"
proof -
  assume "v \<noteq> -1"
  then have "unat (v + 1) = unat v + 1"
    by (metis Suc_eq_plus1 add.commute eq_neg_iff_add_eq_0 unatSuc)
  moreover have "unat v < 2 ^ 32" using unat_less_pow [of v] by simp
  ultimately have "unat (v4_mapped v + 1) = unat (v4_mapped (v + 1))"
    by (simp add: unat_word_ariths unat_v4_mapped)
  then show ?thesis by (simp add: word_unat_eq_iff)
qed

lemma v4_mapped_max: "v4_mapped v \<noteq> -1"
  using bit_v4_mapped [of v 100] bit_imp_le_length [of v 100] by auto

lemma drop_v4_mapped_eq:
  assumes "n \<le> 32"
  shows "drop_bit n (v4_mapped v) = drop_bit n (v4_mapped v') \<longleftrightarrow> drop_bit n v = drop_bit n v'"
proof -
  have "(\<forall>k. bit (v4_mapped v) (n + k) = bit (v4_mapped v') (n + k)) \<longleftrightarrow>
      (\<forall>k. bit v (n + k) = bit v' (n + k))"
  proof -
    have "bit w m \<Longrightarrow> m < 32" for w :: "32 word" and m using bit_imp_le_length [of w m] by simp
    then have "(bit (v4_mapped v) m = bit (v4_mapped v') m) = (bit v m = bit v' m)" for m
      by (metis bit_v4_mapped not_le)
    then show ?thesis by simp
  qed
  then show ?thesis by (simp only: drop_bit_eq_bits)
qed

interpretation v4: addr_family V4
proof unfold_locales
  fix x y :: "32 word" and n :: nat
  show "cmpAddr (V4 x) (V4 y) = (if x < y then - 1 else if y < x then 1 else 0)"
    by (simp add: cmpAddr_def Compare_def)
  show "trailingZeros (V4 x) LENGTH(32) \<le> LENGTH(32)"
    using trailingZeros_spec(1) [of 32 "V4 x"] by simp
  show "\<not> bit x n" if "n < trailingZeros (V4 x) LENGTH(32)"
    using that trailingZeros_spec(2) [of 32 n "V4 x"] by (simp add: bits_simps)
  show "bit x (trailingZeros (V4 x) LENGTH(32))" if "trailingZeros (V4 x) LENGTH(32) < LENGTH(32)"
    using that trailingZeros_spec(3) [of 32 "V4 x"] by (simp add: bits_simps)
  show "IsValid (V4 x)" by (simp add: IsValid_def)
  show "addrAddOne (V4 x) = V4 (x + 1)" if "x \<noteq> -1"
    using that by (simp add: addrAddOne_eq v4_mapped_max v4_mapped_succ)
  assume "n \<le> LENGTH(32)"
  then have n: "n \<le> 32" by simp
  show "addrPlusMask (V4 x) n = V4 (x OR mask n)"
    using n by (simp add: addrPlusMask_eq v4_mapped_or_mask)
  have p: "PrefixFrom (V4 x) (int LENGTH(32) - int n) = Prefix (V4 x) (32 - int n)"
    using n by (simp add: PrefixFrom_def)
  have d: "128 - (nat (32 - int n) + 96) = n" using n by simp
  show "covers (PrefixFrom (V4 x) (int LENGTH(32) - int n)) (V4 y) \<longleftrightarrow> drop_bit n x = drop_bit n y"
    unfolding p using n d by (simp add: covers_def drop_v4_mapped_eq)
  show "depth128 (PrefixFrom (V4 x) (int LENGTH(32) - int n)) = 128 - n"
    unfolding p using n by simp
qed

interpretation v6: addr_family "\<lambda>w. V6 w []"
proof unfold_locales
  fix x y :: "128 word" and n :: nat
  show "cmpAddr (V6 x []) (V6 y []) = (if x < y then - 1 else if y < x then 1 else 0)"
    by (simp add: cmpAddr_def Compare_def)
  show "trailingZeros (V6 x []) LENGTH(128) \<le> LENGTH(128)"
    using trailingZeros_spec(1) [of 128 "V6 x []"] by simp
  show "\<not> bit x n" if "n < trailingZeros (V6 x []) LENGTH(128)"
    using that trailingZeros_spec(2) [of 128 n "V6 x []"] by simp
  show "bit x (trailingZeros (V6 x []) LENGTH(128))" if "trailingZeros (V6 x []) LENGTH(128) < LENGTH(128)"
    using that trailingZeros_spec(3) [of 128 "V6 x []"] by simp
  show "IsValid (V6 x [])" by (simp add: IsValid_def)
  show "addrAddOne (V6 x []) = V6 (x + 1) []" if "x \<noteq> -1"
    using that by (simp add: addrAddOne_eq)
  assume "n \<le> LENGTH(128)"
  then have n: "n \<le> 128" by simp
  show "addrPlusMask (V6 x []) n = V6 (x OR mask n) []"
    by (simp add: addrPlusMask_eq)
  have p: "PrefixFrom (V6 x []) (int LENGTH(128) - int n) = Prefix (V6 x []) (128 - int n)"
    using n by (simp add: PrefixFrom_def)
  have d: "128 - nat (128 - int n) = n" using n by simp
  show "covers (PrefixFrom (V6 x []) (int LENGTH(128) - int n)) (V6 y []) \<longleftrightarrow> drop_bit n x = drop_bit n y"
    unfolding p using d by (simp add: covers_def)
  show "depth128 (PrefixFrom (V6 x []) (int LENGTH(128) - int n)) = 128 - n"
    unfolding p using n by simp
qed

lemma rangeToCIDRs_V4: "rangeToCIDRs (V4 s) (V4 e) = cidr_loop LENGTH(32) (V4 s) (V4 e)"
  by (simp add: rangeToCIDRs_def)

lemma rangeToCIDRs_V6: "rangeToCIDRs (V6 s []) (V6 e []) = cidr_loop LENGTH(128) (V6 s []) (V6 e [])"
  by (simp add: rangeToCIDRs_def)

text \<open>
  C4: the prefixes that \<open>rangeToCIDRs\<close> returns for an IPv4 or an IPv6 range cover every
  address of the range exactly once, and no address of the family outside it.
\<close>

theorem range_exact_cover:
  "length (filter (\<lambda>p. covers p (V4 y)) (rangeToCIDRs (V4 s) (V4 e))) = (if s \<le> y \<and> y \<le> e then 1 else 0) \<and>
   length (filter (\<lambda>p. covers p (V6 y' [])) (rangeToCIDRs (V6 s' []) (V6 e' []))) =
     (if s' \<le> y' \<and> y' \<le> e' then 1 else 0)"
  using v4.cidr_count [of y s e] v6.cidr_count [of y' s' e']
  unfolding rangeToCIDRs_V4 rangeToCIDRs_V6 by blast

text \<open>
  C18: the decomposition of an IPv4 or an IPv6 range (without zones) is minimal: every list of
  prefixes that covers exactly the addresses of the range has at least as many elements.
\<close>

theorem range_minimal:
  assumes "\<forall>p \<in> set ps. prefix_wf p"
  shows "((\<forall>y. (\<exists>p \<in> set ps. covers p (V4 y)) \<longleftrightarrow> s \<le> y \<and> y \<le> e) \<longrightarrow>
      length (rangeToCIDRs (V4 s) (V4 e)) \<le> length ps) \<and>
    ((\<forall>y. (\<exists>p \<in> set ps. covers p (V6 y [])) \<longleftrightarrow> s' \<le> y \<and> y \<le> e') \<longrightarrow>
      length (rangeToCIDRs (V6 s' []) (V6 e' [])) \<le> length ps)"
  unfolding rangeToCIDRs_V4 rangeToCIDRs_V6
  using v4.cidr_minimal [OF assms, of s e] v6.cidr_minimal [OF assms, of s' e'] by blast

text \<open>The ranges \<open>192.0.2.0 - 192.0.2.255\<close> and \<open>2001:db8:: - 2001:db8::ffff\<close>, and one prefix for each.\<close>

lemma example_block: "covers (PrefixFrom (V4 0xC0000200) 24) (V4 y) \<longleftrightarrow> 0xC0000200 \<le> y \<and> y \<le> 0xC00002FF"
proof -
  have "\<forall>k < 8. \<not> bit (0xC0000200 :: 32 word) k" by (simp add: numeral_eq_Suc less_Suc_eq bit_0)
  moreover have "(0xC0000200 :: 32 word) OR mask 8 = 0xC00002FF" by (simp add: mask_eq_exp_minus_1)
  ultimately show ?thesis
    using v4.covers_mk [of 8 "0xC0000200" y] block_iff [of 8 "0xC0000200 :: 32 word" y] by simp
qed

lemma example_block6:
  "covers (PrefixFrom (V6 0x20010DB8000000000000000000000000 []) 112) (V6 y []) \<longleftrightarrow>
     0x20010DB8000000000000000000000000 \<le> y \<and> y \<le> 0x20010DB800000000000000000000FFFF"
proof -
  let ?w = "0x20010DB8000000000000000000000000 :: 128 word"
  have "\<forall>k < 16. \<not> bit ?w k" by (simp add: numeral_eq_Suc less_Suc_eq bit_0)
  moreover have "?w OR mask 16 = 0x20010DB800000000000000000000FFFF" by (simp add: mask_eq_exp_minus_1)
  ultimately show ?thesis
    using v6.covers_mk [of 16 ?w y] block_iff [of 16 ?w y] by simp
qed

theorem range_minimal_witness:
  "length (rangeToCIDRs (V4 0xC0000200) (V4 0xC00002FF)) \<le> 1 \<and>
   length (rangeToCIDRs (V6 0x20010DB8000000000000000000000000 []) (V6 0x20010DB800000000000000000000FFFF [])) \<le> 1"
  using range_minimal [of "[PrefixFrom (V4 0xC0000200) 24]" "0xC0000200" "0xC00002FF"]
    range_minimal [of "[PrefixFrom (V6 0x20010DB8000000000000000000000000 []) 112]" _ _
      "0x20010DB8000000000000000000000000" "0x20010DB800000000000000000000FFFF"]
  by (simp add: example_block example_block6)

end
