(* ===== verification/Rpsl_Intern.thy ===== *)
theory Rpsl_Intern
  imports Go_Strings
begin

section \<open>The table of canonical strings (internal/ripe/intern.go)\<close>

text \<open>
  \<open>intern\<close> returns the table's copy of a known string. Strings are values in the model, so
  what is left of the table is the string it maps a key to; \<open>intern_id\<close> shows that it is the
  key itself for every key, known or not.
\<close>

definition knownAttrNames :: "string list" where
  "knownAttrNames =
     [''address'', ''admin-c'', ''as-block'', ''as-name'', ''as-set'', ''auth'', ''changed'',
      ''country'', ''created'', ''descr'', ''domain'', ''e-mail'', ''fax-no'', ''geoloc'', ''holes'',
      ''import'', ''import-via'', ''ifaddr'', ''inet-rtr'', ''inet6num'', ''inetnum'', ''interface'',
      ''irt'', ''key-cert'', ''language'', ''last-modified'', ''local-as'', ''members'',
      ''members-by-ref'', ''method'', ''mnt-by'', ''mnt-domains'', ''mnt-irt'', ''mnt-lower'',
      ''mnt-nfy'', ''mnt-ref'', ''mnt-routes'', ''mntner'', ''mp-default'', ''mp-export'',
      ''mp-filter'', ''mp-import'', ''mp-members'', ''mp-peer'', ''mp-peering'', ''name'',
      ''netname'', ''nic-hdl'', ''notify'', ''nserver'', ''org'', ''org-name'', ''org-type'',
      ''organisation'', ''origin'', ''owner'', ''peer'', ''peering'', ''peering-set'', ''person'',
      ''phone'', ''ping-hdl'', ''pingable'', ''ref-nfy'', ''referral-by'', ''remarks'', ''role'',
      ''route'', ''route-set'', ''route6'', ''rtr-set'', ''signature'', ''source'',
      ''sponsoring-org'', ''status'', ''tech-c'', ''trouble'', ''upd-to'', ''abuse-c'',
      ''abuse-mailbox'', ''zone-c'', ''alias'', ''default'', ''export'', ''export-comps'', ''filter'',
      ''filter-set'', ''fingerpr'', ''owner-c'', ''aut-num'', ''certif'', ''components'', ''as-name'']"

definition knownClasses :: "string list" where
  "knownClasses =
     [''as-block'', ''as-set'', ''aut-num'', ''domain'', ''filter-set'', ''inet-rtr'', ''inet6num'',
      ''inetnum'', ''irt'', ''key-cert'', ''mntner'', ''organisation'', ''peering-set'', ''person'',
      ''role'', ''route'', ''route-set'', ''route6'', ''rtr-set'']"

definition knownSources :: "string list" where
  "knownSources =
     [''RIPE'', ''ARIN'', ''APNIC'', ''LACNIC'', ''AFRINIC'', ''RIPE-NONAUTH'', ''APNIC-GRS'']"

definition canonicalStrings :: "(string, string) gomap" where
  "canonicalStrings =
     fold (\<lambda>s m. Mapping.update s s m) knownSources
       (fold (\<lambda>s m. Mapping.update s s m) knownClasses
         (fold (\<lambda>s m. Mapping.update s s m) knownAttrNames Mapping.empty))"

definition intern :: "string \<Rightarrow> string" where
  "intern s = (case Mapping.lookup canonicalStrings s of Some c \<Rightarrow> c | None \<Rightarrow> s)"

lemma lookup_fold_self:
  "Mapping.lookup (fold (\<lambda>s m. Mapping.update s s m) xs m) k =
     (if k \<in> set xs then Some k else Mapping.lookup m k)"
  by (induction xs arbitrary: m) (auto simp: lookup_update')

lemma intern_id [simp, code]: "intern s = s"
  by (simp add: intern_def canonicalStrings_def lookup_fold_self)

end
