(* ===== verification/Rpsl_Parser.thy ===== *)
theory Rpsl_Parser
  imports Rpsl_Intern
begin

section \<open>The RPSL parser (internal/ripe/parser.go)\<close>

text \<open>
  \<open>parseStream\<close> reads lines and keeps the object under construction in local variables that
  its closures \<open>commit\<close> and \<open>flush\<close> share: they are the record \<open>pstate\<close>. The callback is a
  state transformer that may return an error. The context is a function from the number of
  times it has been polled to its error (an error of a context is permanent, so the two reads
  of \<open>ctx.Err()\<close> in \<open>flush\<close> are one poll). The reader is the data it delivers and the way it
  ends: at the end of the file or with an error.
\<close>

abbreviation (input) HandleAdminC :: nat where "HandleAdminC \<equiv> 0"
abbreviation (input) HandleTechC :: nat where "HandleTechC \<equiv> 1"
abbreviation (input) HandleAbuseC :: nat where "HandleAbuseC \<equiv> 2"
abbreviation (input) HandleZoneC :: nat where "HandleZoneC \<equiv> 3"

record Object =
  Class :: string
  PrimaryKey :: string
  NicHdl :: string
  Handles :: "string list list"
  Raw :: string

definition handleIdx :: "string \<Rightarrow> nat option" where
  "handleIdx nm =
     (if nm = ''admin-c'' then Some HandleAdminC
      else if nm = ''tech-c'' then Some HandleTechC
      else if nm = ''abuse-c'' then Some HandleAbuseC
      else if nm = ''zone-c'' then Some HandleZoneC
      else None)"

subsection \<open>Lines\<close>

definition isContinuation :: "string \<Rightarrow> bool" where
  "isContinuation line =
     (case line of [] \<Rightarrow> False | c # _ \<Rightarrow> c = CHR '' '' \<or> c = tab \<or> c = CHR ''+'')"

definition stripContPrefix :: "string \<Rightarrow> string" where
  "stripContPrefix line =
     (if line \<noteq> [] \<and> hd line = CHR ''+'' then TrimLeft (tl line) [CHR '' '', tab]
      else TrimLeft line [CHR '' '', tab])"

definition name_char :: "char \<Rightarrow> bool" where
  "name_char c \<longleftrightarrow> c = CHR ''-'' \<or> is_alpha c \<or> is_digit c"

text \<open>The name is ASCII when it is converted, so \<open>strings.ToLower\<close> is the byte-wise conversion.\<close>

definition splitAttr :: "string \<Rightarrow> (string \<times> string) option" where
  "splitAttr line =
     (case cut_byte (CHR '':'') line of
        None \<Rightarrow> None
      | Some (l, r) \<Rightarrow>
          if l = [] then None
          else let nm = TrimSpace l; value = TrimSpace r in
            if nm = [] then None
            else if \<not> list_all name_char nm then None
            else Some (intern (map lower_byte nm), value))"

subsection \<open>Reading an attribute back out of the text\<close>

record scan =
  scan_out :: "string list"
  scan_buf :: string
  scan_matching :: bool

definition scan_commit :: "scan \<Rightarrow> scan" where
  "scan_commit st =
     (if scan_matching st
      then st\<lparr>scan_out := scan_out st @ [scan_buf st], scan_buf := [], scan_matching := False\<rparr>
      else st)"

text \<open>One line: the new state, and whether the scan returns here.\<close>

definition scan_line :: "string \<Rightarrow> bool \<Rightarrow> string \<Rightarrow> scan \<Rightarrow> scan \<times> bool" where
  "scan_line nm all line st =
     (let trimmed = TrimRight line [cr] in
      if trimmed = [] then
        let st = scan_commit st in (st, \<not> all \<and> scan_out st \<noteq> [])
      else if hd trimmed = CHR ''#'' \<or> hd trimmed = CHR ''%'' then (st, False)
      else if isContinuation trimmed then
        (if scan_matching st then st\<lparr>scan_buf := scan_buf st @ [nl] @ stripContPrefix trimmed\<rparr> else st, False)
      else let st = scan_commit st in
        if \<not> all \<and> scan_out st \<noteq> [] then (st, True)
        else case cut_byte (CHR '':'') trimmed of
               None \<Rightarrow> (st, False)
             | Some (l, r) \<Rightarrow>
                 if l = [] then (st, False)
                 else if TrimSpace l \<noteq> nm then (st, False)
                 else (st\<lparr>scan_matching := True, scan_buf := scan_buf st @ TrimSpace r\<rparr>, False))"

function scan_loop :: "string \<Rightarrow> bool \<Rightarrow> string \<Rightarrow> scan \<Rightarrow> string list" where
  "scan_loop nm all raw st =
     (if raw = [] then scan_out (scan_commit st)
      else let (line, rest) = (case cut_byte nl raw of None \<Rightarrow> (raw, []) | Some (a, b) \<Rightarrow> (a, b));
               (st', stop) = scan_line nm all line st
           in if stop then scan_out st' else scan_loop nm all rest st')"
  by pat_completeness auto
termination
  by (relation "measure (\<lambda>(nm, all, raw, st). length raw)")
    (auto split: option.splits prod.splits dest: cut_byte_length)

declare scan_loop.simps [simp del]

definition scanAttr :: "string \<Rightarrow> string \<Rightarrow> bool \<Rightarrow> string list" where
  "scanAttr raw nm all = scan_loop nm all raw \<lparr>scan_out = [], scan_buf = [], scan_matching = False\<rparr>"

definition obj_Lookup :: "Object \<Rightarrow> string \<Rightarrow> string" where
  "obj_Lookup ob nm = (let v = scanAttr (Raw ob) nm False in if v \<noteq> [] then hd v else [])"

definition obj_LookupAll :: "Object \<Rightarrow> string \<Rightarrow> string list" where
  "obj_LookupAll ob nm = scanAttr (Raw ob) nm True"

subsection \<open>The object under construction\<close>

record pstate =
  p_raw :: string
  p_curName :: string
  p_curVal :: string
  p_class :: string
  p_pk :: string
  p_nicHdl :: string
  p_handles :: "string list list"
  p_hadAttr :: bool
  p_polls :: nat

definition pstate_init :: pstate where
  "pstate_init = \<lparr>p_raw = [], p_curName = [], p_curVal = [], p_class = [], p_pk = [], p_nicHdl = [],
     p_handles = replicate 4 [], p_hadAttr = False, p_polls = 0\<rparr>"

definition commit_attr :: "pstate \<Rightarrow> pstate" where
  "commit_attr p =
     (if p_curName p = [] then p
      else let val = p_curVal p;
               p1 = (if \<not> p_hadAttr p then p\<lparr>p_class := p_curName p, p_pk := val, p_hadAttr := True\<rparr> else p);
               p2 = (if p_curName p1 = ''nic-hdl'' \<and> p_nicHdl p1 = [] then p1\<lparr>p_nicHdl := val\<rparr> else p1);
               p3 = (case handleIdx (p_curName p2) of
                       None \<Rightarrow> p2
                     | Some i \<Rightarrow> p2\<lparr>p_handles := (p_handles p2)[i := p_handles p2 ! i @ [val]]\<rparr>)
           in p3\<lparr>p_curName := [], p_curVal := []\<rparr>)"

definition object_of :: "pstate \<Rightarrow> Object" where
  "object_of p = \<lparr>Class = p_class p, PrimaryKey = p_pk p, NicHdl = p_nicHdl p,
     Handles = p_handles p, Raw = p_raw p\<rparr>"

definition reset_obj :: "pstate \<Rightarrow> pstate" where
  "reset_obj p = p\<lparr>p_raw := [], p_class := [], p_pk := [], p_nicHdl := [],
     p_handles := map (\<lambda>_. []) (p_handles p), p_hadAttr := False\<rparr>"

type_synonym 'e ctx = "nat \<Rightarrow> 'e option"
type_synonym ('s, 'e) callback = "Object \<Rightarrow> 's \<Rightarrow> 's \<times> 'e option"

definition flush :: "'e ctx \<Rightarrow> ('s, 'e) callback \<Rightarrow> pstate \<Rightarrow> 's \<Rightarrow> pstate \<times> 's \<times> 'e option" where
  "flush ctx fn p s =
     (let p1 = commit_attr p in
      if \<not> p_hadAttr p1 then (p1\<lparr>p_raw := []\<rparr>, s, None)
      else let obj = object_of p1;
               p2 = reset_obj p1;
               p3 = p2\<lparr>p_polls := p_polls p2 + 1\<rparr>
           in case ctx (p_polls p2) of
                Some e \<Rightarrow> (p3, s, Some e)
              | None \<Rightarrow> (let (s', e) = fn obj s in (p3, s', e)))"

subsection \<open>The loop\<close>

datatype 'e read_end = AtEOF | ReadErr 'e

text \<open>\<open>bufio.Reader.ReadString\<close> with delimiter newline: the line, the unread data, the end of the reader.\<close>

definition readString :: "string \<Rightarrow> 'e read_end \<Rightarrow> string \<times> string \<times> 'e read_end option" where
  "readString data fin =
     (case cut_byte nl data of
        Some (a, rest) \<Rightarrow> (a @ [nl], rest, None)
      | None \<Rightarrow> (data, [], Some fin))"

definition parse_line ::
    "'e ctx \<Rightarrow> ('s, 'e) callback \<Rightarrow> string \<Rightarrow> pstate \<Rightarrow> 's \<Rightarrow> pstate \<times> 's \<times> 'e option" where
  "parse_line ctx fn line p s =
     (let trimmed = TrimRight line [cr, nl] in
      if TrimSpace trimmed = [] then flush ctx fn p s
      else if HasPrefix trimmed ''#'' \<or> HasPrefix trimmed ''%'' then
        (p\<lparr>p_raw := p_raw p @ line\<rparr>, s, None)
      else if isContinuation trimmed then
        let p1 = (if p_curName p \<noteq> [] then p\<lparr>p_curVal := p_curVal p @ [nl] @ stripContPrefix trimmed\<rparr> else p)
        in (p1\<lparr>p_raw := p_raw p1 @ line\<rparr>, s, None)
      else case splitAttr trimmed of
             None \<Rightarrow> (p, s, None)
           | Some (nm, value) \<Rightarrow>
               (let p1 = commit_attr p
                in (p1\<lparr>p_curName := nm, p_curVal := p_curVal p1 @ value, p_raw := p_raw p1 @ line\<rparr>, s, None)))"

function parse_loop ::
    "'e ctx \<Rightarrow> ('s, 'e) callback \<Rightarrow> 'e read_end \<Rightarrow> string \<Rightarrow> pstate \<Rightarrow> 's \<Rightarrow> 's \<times> 'e option" where
  "parse_loop ctx fn fin data p s =
     (case readString data fin of
        (line, rest, rerr) \<Rightarrow>
          (case (if line \<noteq> [] then parse_line ctx fn line p s else (p, s, None)) of
             (p1, s1, Some ferr) \<Rightarrow> (s1, Some ferr)
           | (p1, s1, None) \<Rightarrow>
               (case rerr of
                  None \<Rightarrow> parse_loop ctx fn fin rest p1 s1
                | Some AtEOF \<Rightarrow> (let (p2, s2, ferr) = flush ctx fn p1 s1 in (s2, ferr))
                | Some (ReadErr e) \<Rightarrow> (s1, Some e))))"
  by pat_completeness auto
termination
  by (relation "measure (\<lambda>(ctx, fn, fin, data, p, s). length data)")
    (auto simp: readString_def split: option.splits prod.splits dest: cut_byte_length)

declare parse_loop.simps [simp del]

definition parseStream ::
    "'e ctx \<Rightarrow> string \<times> 'e read_end \<Rightarrow> ('s, 'e) callback \<Rightarrow> 's \<Rightarrow> 's \<times> 'e option" where
  "parseStream ctx r fn s = parse_loop ctx fn (snd r) (fst r) pstate_init s"

text \<open>
  \<open>Parse\<close>: the file system (\<open>os_open\<close>) and the gzip reader (\<open>gunzip\<close>) are parameters; each
  gives an error or a reader.
\<close>

definition Parse ::
    "(string \<Rightarrow> 'e + string \<times> 'e read_end) \<Rightarrow> (string \<times> 'e read_end \<Rightarrow> 'e + string \<times> 'e read_end) \<Rightarrow>
     'e ctx \<Rightarrow> string \<Rightarrow> ('s, 'e) callback \<Rightarrow> 's \<Rightarrow> 's \<times> 'e option" where
  "Parse os_open gunzip ctx path fn s =
     (case os_open path of
        Inl e \<Rightarrow> (s, Some e)
      | Inr f \<Rightarrow>
          if has_suffix path ''.gz'' then
            (case gunzip f of
               Inl e \<Rightarrow> (s, Some e)
             | Inr r \<Rightarrow> parseStream ctx r fn s)
          else parseStream ctx f fn s)"

end
