(* ===== verification/Store.thy ===== *)
theory Store
  imports Net_Trie Cidr_Props Rpsl_Parser
begin

section \<open>The object store (internal/ripe/store.go, Store)\<close>

text \<open>
  The indexes of the store are Go maps and two prefix tries. Objects are never changed after
  they are parsed, so a pointer to an object is modelled by the object. The counters are Go
  \<open>int\<close>s that count loaded objects; they are unbounded here. \<open>u\<close> is the case table for strings
  with non-ASCII bytes.
\<close>

type_synonym classPKKey = "string \<times> string"

record Store =
  byKey :: "(classPKKey, Object list) gomap"
  byHandle :: "(string, Object list) gomap"
  byDomain :: "(string, Object list) gomap"
  inet4 :: "Object netTrie"
  inet6 :: "Object netTrie"
  counts :: "(string, int) gomap"
  countsBySource :: "(string, int) gomap"

definition NewStore :: Store where
  "NewStore = \<lparr>byKey = Mapping.empty, byHandle = Mapping.empty, byDomain = Mapping.empty,
     inet4 = newNetTrie, inet6 = newNetTrie, counts = Mapping.empty, countsBySource = Mapping.empty\<rparr>"

text \<open>The copies of the counters that \<open>Counts\<close> and \<open>CountsBySource\<close> make, key by key.\<close>

definition copy_counts :: "(string, int) gomap \<Rightarrow> (string, int) gomap" where
  "copy_counts m = Mapping.map_values (\<lambda>_ v. v) m"

definition Counts :: "Store \<Rightarrow> (string, int) gomap" where
  "Counts s = copy_counts (counts s)"

definition CountsBySource :: "Store \<Rightarrow> (string, int) gomap" where
  "CountsBySource s = copy_counts (countsBySource s)"

definition keyOf :: "string \<Rightarrow> string \<Rightarrow> classPKKey" where
  "keyOf class pk = (class, pk)"

definition upper_classes :: "string list" where
  "upper_classes =
     [''aut-num'', ''as-block'', ''as-set'', ''mntner'', ''organisation'', ''irt'', ''key-cert'',
      ''filter-set'', ''inet-rtr'', ''peering-set'', ''route-set'', ''rtr-set'']"

definition normalizeKey :: "unicode \<Rightarrow> string \<Rightarrow> string \<Rightarrow> string" where
  "normalizeKey u class pk =
     (if class \<in> set upper_classes then ToUpper u (TrimSpace pk)
      else if class = ''domain'' then ToLower u (TrimSpace pk)
      else TrimSpace pk)"

definition insertPrefix :: "Object netTrie \<Rightarrow> string \<Rightarrow> Object \<Rightarrow> Object netTrie" where
  "insertPrefix t pk obj =
     (case ParsePrefix (TrimSpace pk) of
        None \<Rightarrow> t
      | Some p \<Rightarrow> net_insert t p obj)"

definition splitRange :: "string \<Rightarrow> (string \<times> string) option" where
  "splitRange s =
     (case cut_byte (CHR ''-'') s of
        None \<Rightarrow> None
      | Some (l, r) \<Rightarrow> Some (TrimSpace l, TrimSpace r))"

definition insertRange :: "Object netTrie \<Rightarrow> string \<Rightarrow> Object \<Rightarrow> Object netTrie" where
  "insertRange t pk obj =
     (case splitRange pk of
        None \<Rightarrow> t
      | Some (startStr, endStr) \<Rightarrow>
          (case (ParseAddr startStr, ParseAddr endStr) of
             (Some start, Some stop) \<Rightarrow>
               if Is6 start \<noteq> Is6 stop then t
               else fold (\<lambda>p t. net_insert t p obj) (rangeToCIDRs start stop) t
           | _ \<Rightarrow> t))"

definition store_Insert :: "unicode \<Rightarrow> Object \<Rightarrow> string \<Rightarrow> Store \<Rightarrow> Store" where
  "store_Insert u obj source s0 =
     (let s = s0\<lparr>counts := gmap_incr (Class obj) (counts s0),
                 countsBySource := gmap_incr source (countsBySource s0),
                 byKey := gmap_append (Class obj, normalizeKey u (Class obj) (PrimaryKey obj)) obj (byKey s0)\<rparr>
      in if Class obj = ''person'' \<or> Class obj = ''role'' then
           (if NicHdl obj \<noteq> [] then s\<lparr>byHandle := gmap_append (ToUpper u (NicHdl obj)) obj (byHandle s)\<rparr> else s)
         else if Class obj = ''domain'' then
           s\<lparr>byDomain := gmap_append (ToLower u (TrimSuffix (PrimaryKey obj) ''.'')) obj (byDomain s)\<rparr>
         else if Class obj = ''inetnum'' then s\<lparr>inet4 := insertRange (inet4 s) (PrimaryKey obj) obj\<rparr>
         else if Class obj = ''inet6num'' then s\<lparr>inet6 := insertPrefix (inet6 s) (PrimaryKey obj) obj\<rparr>
         else if Class obj = ''route'' then s\<lparr>inet4 := insertPrefix (inet4 s) (PrimaryKey obj) obj\<rparr>
         else if Class obj = ''route6'' then s\<lparr>inet6 := insertPrefix (inet6 s) (PrimaryKey obj) obj\<rparr>
         else s)"

subsection \<open>Queries\<close>

definition lookupAddr :: "Store \<Rightarrow> addr \<Rightarrow> Object list" where
  "lookupAddr s a = (if Is4 a then net_lookup (inet4 s) a else net_lookup (inet6 s) a)"

text \<open>The loop over the runes; a byte of a multi-byte rune takes the default branch.\<close>

fun nic_loop :: "string \<Rightarrow> bool \<Rightarrow> bool \<Rightarrow> bool" where
  "nic_loop [] hasAlpha hasOther = (hasAlpha \<and> hasOther)"
| "nic_loop (r # rs) hasAlpha hasOther =
     (if is_alpha r then nic_loop rs True hasOther
      else if is_digit r \<or> r = CHR ''-'' then nic_loop rs hasAlpha True
      else False)"

definition isNicHandle :: "string \<Rightarrow> bool" where
  "isNicHandle s = nic_loop s False False"

definition lookup_classes :: "string list" where
  "lookup_classes =
     [''organisation'', ''mntner'', ''as-set'', ''route-set'', ''filter-set'', ''peering-set'',
      ''rtr-set'', ''inet-rtr'', ''key-cert'', ''irt'', ''person'', ''role'']"

fun lookup_by_class :: "unicode \<Rightarrow> Store \<Rightarrow> string \<Rightarrow> string list \<Rightarrow> Object list" where
  "lookup_by_class u s q [] = []"
| "lookup_by_class u s q (class # cs) =
     (let objs = gmap_list (byKey s) (keyOf class (normalizeKey u class q))
      in if objs \<noteq> [] then objs else lookup_by_class u s q cs)"

definition lookup_domain :: "unicode \<Rightarrow> Store \<Rightarrow> string \<Rightarrow> Object list" where
  "lookup_domain u s q =
     (if CHR ''.'' \<in> set q \<and> gmap_list (byDomain s) (ToLower u q) \<noteq> []
      then gmap_list (byDomain s) (ToLower u q)
      else lookup_by_class u s q lookup_classes)"

definition lookup_handle :: "unicode \<Rightarrow> Store \<Rightarrow> string \<Rightarrow> Object list" where
  "lookup_handle u s q =
     (if isNicHandle q \<and> gmap_list (byHandle s) (ToUpper u q) \<noteq> []
      then gmap_list (byHandle s) (ToUpper u q)
      else lookup_domain u s q)"

definition lookup_name :: "unicode \<Rightarrow> Store \<Rightarrow> string \<Rightarrow> Object list" where
  "lookup_name u s q =
     (let upper = ToUpper u q in
      if HasPrefix upper ''AS'' \<and> gmap_list (byKey s) (keyOf ''aut-num'' upper) \<noteq> []
      then gmap_list (byKey s) (keyOf ''aut-num'' upper)
      else if HasPrefix upper ''AS'' \<and> gmap_list (byKey s) (keyOf ''as-block'' upper) \<noteq> []
      then gmap_list (byKey s) (keyOf ''as-block'' upper)
      else lookup_handle u s q)"

definition store_Lookup :: "unicode \<Rightarrow> Store \<Rightarrow> string \<Rightarrow> Object list" where
  "store_Lookup u s q0 =
     (let q = TrimSpace q0 in
      if q = [] then []
      else case ParsePrefix q of
             Some p \<Rightarrow> lookupAddr s (paddr p)
           | None \<Rightarrow>
               (case ParseAddr q of
                  Some a \<Rightarrow> lookupAddr s a
                | None \<Rightarrow> lookup_name u s q))"

end
