(* ===== verification/Store_Props.thy ===== *)
theory Store_Props
  imports Store
begin

section \<open>The store refines a list of objects\<close>

text \<open>
  The abstract store is the list of the inserted objects with their sources. Every index of a
  store built by \<open>Insert\<close> is described as a selection from that list, and \<open>Lookup\<close> is shown to
  answer from it; the facts on address lookups, handles, counters and the order of insertions
  follow.
\<close>

type_synonym inserted = "(Object \<times> string) list"

definition insert_all :: "unicode \<Rightarrow> inserted \<Rightarrow> Store \<Rightarrow> Store" where
  "insert_all u ins s = fold (\<lambda>x. store_Insert u (fst x) (snd x)) ins s"

definition store_of :: "unicode \<Rightarrow> inserted \<Rightarrow> Store" where
  "store_of u ins = insert_all u ins NewStore"

subsection \<open>The prefixes an object is filed under\<close>

definition key_prefix :: "string \<Rightarrow> prefix list" where
  "key_prefix pk = (case ParsePrefix (TrimSpace pk) of None \<Rightarrow> [] | Some p \<Rightarrow> [p])"

definition key_range :: "string \<Rightarrow> prefix list" where
  "key_range pk =
     (case splitRange pk of
        None \<Rightarrow> []
      | Some (l, r) \<Rightarrow>
          (case (ParseAddr l, ParseAddr r) of
             (Some start, Some stop) \<Rightarrow> rangeToCIDRs start stop
           | _ \<Rightarrow> []))"

definition prefixes4 :: "Object \<Rightarrow> prefix list" where
  "prefixes4 ob =
     (if Class ob = ''inetnum'' then key_range (PrimaryKey ob)
      else if Class ob = ''route'' then key_prefix (PrimaryKey ob) else [])"

definition prefixes6 :: "Object \<Rightarrow> prefix list" where
  "prefixes6 ob =
     (if Class ob = ''inet6num'' \<or> Class ob = ''route6'' then key_prefix (PrimaryKey ob) else [])"

definition entries :: "(Object \<Rightarrow> prefix list) \<Rightarrow> inserted \<Rightarrow> (prefix \<times> Object) list" where
  "entries f ins = concat (map (\<lambda>x. map (\<lambda>p. (p, fst x)) (f (fst x))) ins)"

text \<open>Every prefix that reaches a trie is well-formed and valid.\<close>

definition no_zero :: "addr option \<Rightarrow> bool" where
  "no_zero x \<longleftrightarrow> x \<noteq> Some NoAddr"

lemma no_zero_intros:
  "no_zero None" "no_zero (Some (V4 v))" "no_zero (Some (V6 w z))"
  "no_zero x \<Longrightarrow> no_zero y \<Longrightarrow> no_zero (if b then x else y)"
  "(\<And>a. no_zero (f a)) \<Longrightarrow> no_zero (case m of None \<Rightarrow> None | Some a \<Rightarrow> f a)"
  by (auto simp: no_zero_def split: option.split)

lemma parseIPv6_no_zero: "no_zero (parseIPv6 s)"
  unfolding parseIPv6_def Let_def case_prod_beta by (intro no_zero_intros)

lemma parse_dispatch_no_zero: "no_zero (parse_dispatch s t)"
  by (induction t) (simp_all add: parseIPv6_no_zero no_zero_intros, simp_all add: no_zero_def parseIPv4_def)

lemma ParseAddr_valid: "ParseAddr s = Some a \<Longrightarrow> a \<noteq> NoAddr"
  using parse_dispatch_no_zero [of s s] by (auto simp: ParseAddr_def no_zero_def)

lemma ParsePrefix_ok: "ParsePrefix s = Some p \<Longrightarrow> prefix_ok p"
proof -
  assume p: "ParsePrefix s = Some p"
  have len: "int (if Is6 ip then 128 else 32) = int (BitLen ip)" if "ip \<noteq> NoAddr" for ip
    using that by (cases ip) auto
  obtain t ip b where "ParseAddr t = Some ip" "p = PrefixFrom ip b" "0 \<le> b" "b \<le> int (if Is6 ip then 128 else 32)"
    using p by (auto simp: ParsePrefix_def not_less split: option.splits if_splits prod.splits)
  with len ParseAddr_valid ParsePrefix_wf [OF p] show ?thesis
    by (auto simp: prefix_ok_def PrefixFrom_valid)
qed

lemma shrink_size_le: "shrink_size cur stop n \<le> n"
  by (induction cur stop n rule: shrink_size.induct) auto

lemma next_family:
  assumes "n = 32 \<or> n = 128" "n \<le> BitLen a" "IsValid (addrAddOne (addrPlusMask a k))"
  shows "n \<le> BitLen (addrAddOne (addrPlusMask a k))"
  using assms by (cases a) (auto simp: addrPlusMask_eq addrAddOne_eq Let_def IsValid_def split: if_splits)

lemma cidr_loop_ok:
  "n = 32 \<or> n = 128 \<Longrightarrow> n \<le> BitLen cur \<Longrightarrow> \<forall>p \<in> set (cidr_loop n cur stop). prefix_ok p"
proof (induction n cur stop rule: cidr_loop.induct)
  case (1 n cur stop)
  let ?sz = "shrink_size cur stop (if n < trailingZeros cur n then n else trailingZeros cur n)"
  have "?sz \<le> n" using shrink_size_le [of cur stop "if n < trailingZeros cur n then n else trailingZeros cur n"]
    by (auto split: if_splits)
  moreover have "cur \<noteq> NoAddr" using 1 by auto
  ultimately have "prefix_ok (PrefixFrom cur (int n - int ?sz))"
    using 1 by (simp add: prefix_ok_def PrefixFrom_valid)
  with 1 next_family [of n cur ?sz] show ?case
    by (subst cidr_loop.simps) (auto simp: Let_def)
qed

lemma rangeToCIDRs_ok: "start \<noteq> NoAddr \<Longrightarrow> \<forall>p \<in> set (rangeToCIDRs start stop). prefix_ok p"
  unfolding rangeToCIDRs_def by (cases start) (auto dest: cidr_loop_ok [rule_format, rotated -1])

lemma key_prefix_ok: "\<forall>p \<in> set (key_prefix pk). prefix_ok p"
  by (auto simp: key_prefix_def ParsePrefix_ok split: option.splits)

lemma key_range_ok: "\<forall>p \<in> set (key_range pk). prefix_ok p"
  unfolding key_range_def
  by (auto split: option.split dest!: ParseAddr_valid [OF sym] dest: rangeToCIDRs_ok [rule_format])

lemma entries_ok:
  "\<forall>e \<in> set (entries prefixes4 ins). prefix_ok (fst e)" "\<forall>e \<in> set (entries prefixes6 ins). prefix_ok (fst e)"
  using key_prefix_ok key_range_ok
  by (auto simp: entries_def prefixes4_def prefixes6_def)

subsection \<open>The indexes of a built store\<close>

lemma insertPrefix_all: "insertPrefix t pk ob = net_insert_all (map (\<lambda>p. (p, ob)) (key_prefix pk)) t"
  by (simp add: insertPrefix_def key_prefix_def net_insert_all_def split: option.splits)

lemma insertRange_all: "insertRange t pk ob = net_insert_all (map (\<lambda>p. (p, ob)) (key_range pk)) t"
  by (auto simp: insertRange_def key_range_def net_insert_all_def fold_map comp_def rangeToCIDRs_def
      split: option.splits)

lemma net_insert_all_append: "net_insert_all (es @ fs) t = net_insert_all fs (net_insert_all es t)"
  by (simp add: net_insert_all_def)

lemma net_insert_all_Nil [simp]: "net_insert_all [] t = t"
  by (simp add: net_insert_all_def)

text \<open>One insertion, index by index.\<close>

definition handle_key :: "unicode \<Rightarrow> Object \<Rightarrow> string option" where
  "handle_key u ob =
     (if (Class ob = ''person'' \<or> Class ob = ''role'') \<and> NicHdl ob \<noteq> [] then Some (ToUpper u (NicHdl ob)) else None)"

definition domain_key :: "unicode \<Rightarrow> Object \<Rightarrow> string option" where
  "domain_key u ob =
     (if Class ob = ''domain'' then Some (ToLower u (TrimSuffix (PrimaryKey ob) ''.'')) else None)"

definition class_key :: "unicode \<Rightarrow> Object \<Rightarrow> classPKKey" where
  "class_key u ob = (Class ob, normalizeKey u (Class ob) (PrimaryKey ob))"

lemma Insert_fields:
  "inet4 (store_Insert u ob src s) = net_insert_all (map (\<lambda>p. (p, ob)) (prefixes4 ob)) (inet4 s)"
  "inet6 (store_Insert u ob src s) = net_insert_all (map (\<lambda>p. (p, ob)) (prefixes6 ob)) (inet6 s)"
  "byKey (store_Insert u ob src s) = gmap_append (class_key u ob) ob (byKey s)"
  "byHandle (store_Insert u ob src s) =
     (case handle_key u ob of None \<Rightarrow> byHandle s | Some k \<Rightarrow> gmap_append k ob (byHandle s))"
  "byDomain (store_Insert u ob src s) =
     (case domain_key u ob of None \<Rightarrow> byDomain s | Some k \<Rightarrow> gmap_append k ob (byDomain s))"
  "counts (store_Insert u ob src s) = gmap_incr (Class ob) (counts s)"
  "countsBySource (store_Insert u ob src s) = gmap_incr src (countsBySource s)"
  by (simp_all add: store_Insert_def Let_def prefixes4_def prefixes6_def class_key_def handle_key_def
      domain_key_def insertPrefix_all insertRange_all)

lemma insert_all_tries:
  "inet4 (insert_all u ins s) = net_insert_all (entries prefixes4 ins) (inet4 s)"
  "inet6 (insert_all u ins s) = net_insert_all (entries prefixes6 ins) (inet6 s)"
  unfolding insert_all_def
  by (induction ins arbitrary: s) (simp_all add: entries_def Insert_fields net_insert_all_append)

lemma insert_all_maps:
  "gmap_list (byKey (insert_all u ins s)) k =
     gmap_list (byKey s) k @ filter (\<lambda>ob. class_key u ob = k) (map fst ins)"
  "gmap_list (byHandle (insert_all u ins s)) h =
     gmap_list (byHandle s) h @ filter (\<lambda>ob. handle_key u ob = Some h) (map fst ins)"
  "gmap_list (byDomain (insert_all u ins s)) h =
     gmap_list (byDomain s) h @ filter (\<lambda>ob. domain_key u ob = Some h) (map fst ins)"
  unfolding insert_all_def
  by (induction ins arbitrary: s) (simp_all add: Insert_fields gomap_simps split: option.splits)

lemma insert_all_counts:
  "gmap_int (counts (insert_all u ins s)) c =
     gmap_int (counts s) c + int (length (filter (\<lambda>x. Class (fst x) = c) ins))"
  "gmap_int (countsBySource (insert_all u ins s)) c =
     gmap_int (countsBySource s) c + int (length (filter (\<lambda>x. snd x = c) ins))"
  unfolding insert_all_def
  by (induction ins arbitrary: s) (simp_all add: Insert_fields gomap_simps)

lemmas store_of_fields = insert_all_tries insert_all_maps insert_all_counts store_of_def

lemma NewStore_fields [simp]:
  "inet4 NewStore = newNetTrie" "inet6 NewStore = newNetTrie"
  "byKey NewStore = Mapping.empty" "byHandle NewStore = Mapping.empty" "byDomain NewStore = Mapping.empty"
  "counts NewStore = Mapping.empty" "countsBySource NewStore = Mapping.empty"
  by (simp_all add: NewStore_def)

lemma lookupAddr_store_of:
  "lookupAddr (store_of u ins) a = covering (entries (if Is4 a then prefixes4 else prefixes6) ins) a"
  by (simp add: lookupAddr_def store_of_fields net_lookup_insert_all entries_ok)

subsection \<open>Lookup as a selection from the inserted objects\<close>

text \<open>
  A name is tried as an AS number, a handle, a domain and then as a key of each class in
  turn: a list of conditions on objects, of which the first that any object meets counts.
\<close>

definition name_conditions :: "unicode \<Rightarrow> string \<Rightarrow> (Object \<Rightarrow> bool) list" where
  "name_conditions u q =
     (if HasPrefix (ToUpper u q) ''AS''
      then [\<lambda>ob. class_key u ob = (''aut-num'', ToUpper u q), \<lambda>ob. class_key u ob = (''as-block'', ToUpper u q)]
      else []) @
     (if isNicHandle q then [\<lambda>ob. handle_key u ob = Some (ToUpper u q)] else []) @
     (if CHR ''.'' \<in> set q then [\<lambda>ob. domain_key u ob = Some (ToLower u q)] else []) @
     map (\<lambda>c ob. class_key u ob = (c, normalizeKey u c q)) lookup_classes"

fun first_hit :: "(Object \<Rightarrow> bool) list \<Rightarrow> Object list \<Rightarrow> Object list" where
  "first_hit [] obs = []"
| "first_hit (P # Ps) obs = (if filter P obs \<noteq> [] then filter P obs else first_hit Ps obs)"

definition query_addr :: "string \<Rightarrow> addr option" where
  "query_addr q = (case ParsePrefix q of Some p \<Rightarrow> Some (paddr p) | None \<Rightarrow> ParseAddr q)"

definition spec_Lookup :: "unicode \<Rightarrow> inserted \<Rightarrow> string \<Rightarrow> Object list" where
  "spec_Lookup u ins q0 =
     (let q = TrimSpace q0 in
      if q = [] then []
      else case query_addr q of
             Some a \<Rightarrow> covering (entries (if Is4 a then prefixes4 else prefixes6) ins) a
           | None \<Rightarrow> first_hit (name_conditions u q) (map fst ins))"

lemma lookup_by_class_hit:
  "lookup_by_class u (store_of u ins) q cs =
     first_hit (map (\<lambda>c ob. class_key u ob = (c, normalizeKey u c q)) cs) (map fst ins)"
  by (induction cs) (simp_all add: store_of_fields keyOf_def Let_def)

lemma first_hit_if1:
  "first_hit ((if b then [P] else []) @ Ps) obs =
     (if b \<and> filter P obs \<noteq> [] then filter P obs else first_hit Ps obs)"
  by simp

lemma first_hit_if2:
  "first_hit ((if b then [P, Q] else []) @ Ps) obs =
     (if b \<and> filter P obs \<noteq> [] then filter P obs
      else if b \<and> filter Q obs \<noteq> [] then filter Q obs else first_hit Ps obs)"
  by simp

lemma store_of_maps:
  "gmap_list (byKey (store_of u ins)) k = filter (\<lambda>ob. class_key u ob = k) (map fst ins)"
  "gmap_list (byHandle (store_of u ins)) h = filter (\<lambda>ob. handle_key u ob = Some h) (map fst ins)"
  "gmap_list (byDomain (store_of u ins)) h = filter (\<lambda>ob. domain_key u ob = Some h) (map fst ins)"
  by (simp_all add: store_of_fields)

lemma lookup_name_hit: "lookup_name u (store_of u ins) q = first_hit (name_conditions u q) (map fst ins)"
  unfolding lookup_name_def lookup_handle_def lookup_domain_def name_conditions_def lookup_by_class_hit
    store_of_maps keyOf_def Let_def first_hit_if1 first_hit_if2 ..

lemma store_Lookup_spec: "store_Lookup u (store_of u ins) q = spec_Lookup u ins q"
  by (simp add: store_Lookup_def spec_Lookup_def query_addr_def Let_def lookup_name_hit lookupAddr_store_of
      split: option.splits)

text \<open>
  C2: a store built by \<open>Insert\<close> refines the list of the inserted objects. For every query,
  \<open>Lookup\<close> returns, for an address or a prefix, the objects filed under a prefix that covers
  the address, least specific first and in insertion order within one length; for a name,
  the objects that meet the first of the conditions (AS number, handle, domain, key of each
  class in turn) that any object meets, in insertion order; and nothing for a blank query.
\<close>

theorem store_refines_list:
  "store_Lookup u (fold (\<lambda>x. store_Insert u (fst x) (snd x)) ins NewStore) q = spec_Lookup u ins q"
  using store_Lookup_spec by (simp add: store_of_def insert_all_def)

subsection \<open>Address lookups\<close>

lemma count_covering:
  "count_list (covering (entries f ins) a) ob =
     count_list (map fst ins) ob * length (filter (\<lambda>p. covers p a) (f ob))"
proof -
  have "count_list (covering es a) ob = length (filter (\<lambda>e. covers (fst e) a \<and> snd e = ob) es)" for es
  proof -
    have "count_list xs x = count (mset xs) x" for xs and x :: Object by (induction xs) auto
    then have "count_list (covering es a) ob = count (mset (map snd (filter (\<lambda>e. covers (fst e) a) es))) ob"
      by (simp add: covering_def)
    also have "\<dots> = length (filter (\<lambda>e. covers (fst e) a \<and> snd e = ob) es)" by (induction es) auto
    finally show ?thesis .
  qed
  moreover have "length (filter (\<lambda>e. covers (fst e) a \<and> snd e = ob) (entries f ins)) =
      count_list (map fst ins) ob * length (filter (\<lambda>p. covers p a) (f ob))"
  proof (induction ins)
    case (Cons x xs)
    have "filter (\<lambda>e. covers (fst e) a \<and> snd e = ob) (map (\<lambda>p. (p, fst x)) ps) =
        (if fst x = ob then map (\<lambda>p. (p, fst x)) (filter (\<lambda>p. covers p a) ps) else [])" for ps
      by (induction ps) auto
    with Cons show ?case by (simp add: entries_def)
  qed (simp add: entries_def)
  ultimately show ?thesis by simp
qed

text \<open>
  C20: an \<open>inetnum\<close> whose key is an IPv4 range is returned by the lookup of an IPv4 address
  exactly when the address lies in the range, and then as often as it was inserted: the
  decomposition of the range into prefixes neither loses nor repeats it.
\<close>

theorem inetnum_found_iff_in_range:
  assumes "Class ob = ''inetnum''" and "splitRange (PrimaryKey ob) = Some (l, r)"
    and "ParseAddr l = Some (V4 s)" and "ParseAddr r = Some (V4 e)"
  shows "count_list (lookupAddr (store_of u ins) (V4 a)) ob =
    (if s \<le> a \<and> a \<le> e then count_list (map fst ins) ob else 0)"
proof -
  have "prefixes4 ob = cidr_loop LENGTH(32) (V4 s) (V4 e)"
    using assms by (simp add: prefixes4_def key_range_def rangeToCIDRs_V4)
  then show ?thesis
    using v4.cidr_count [of a s e] by (simp add: lookupAddr_store_of count_covering)
qed

definition inetnum_example :: Object where
  "inetnum_example = \<lparr>Class = ''inetnum'', PrimaryKey = ''193.0.0.0 - 193.0.7.255'', NicHdl = [],
     Handles = [[], [], [], []], Raw = ''inetnum: 193.0.0.0 - 193.0.7.255'' @ [nl]\<rparr>"

theorem inetnum_found_iff_in_range_witness:
  "count_list (lookupAddr (store_of \<lparr>uni_upper = id, uni_lower = id\<rparr> [(inetnum_example, ''RIPE'')]) (V4 0xC1000101)) inetnum_example = 1"
proof -
  have r: "splitRange (PrimaryKey inetnum_example) = Some (''193.0.0.0'', ''193.0.7.255'')"
    "ParseAddr ''193.0.0.0'' = Some (V4 0xC1000000)" "ParseAddr ''193.0.7.255'' = Some (V4 0xC10007FF)"
    by (code_simp, code_simp, code_simp)
  have c: "Class inetnum_example = ''inetnum''" by (simp add: inetnum_example_def)
  show ?thesis
    using inetnum_found_iff_in_range [OF c r, of _ "[(inetnum_example, ''RIPE'')]" "0xC1000101"] by simp
qed

text \<open>
  C21: an object filed under a prefix (\<open>route\<close>, \<open>route6\<close>, \<open>inet6num\<close>) is returned by the lookup of
  an address of its family exactly when the prefix covers the address.
\<close>

theorem prefix_object_found_iff_covered:
  assumes "if Is4 a then Class ob = ''route'' else Class ob = ''route6'' \<or> Class ob = ''inet6num''"
    and "ParsePrefix (TrimSpace (PrimaryKey ob)) = Some p"
  shows "count_list (lookupAddr (store_of u ins) a) ob =
    (if covers p a then count_list (map fst ins) ob else 0)"
  using assms
  by (auto simp: lookupAddr_store_of count_covering prefixes4_def prefixes6_def key_prefix_def split: if_splits)

definition route6_example :: Object where
  "route6_example = \<lparr>Class = ''route6'', PrimaryKey = ''2001:67c::/32'', NicHdl = [],
     Handles = [[], [], [], []], Raw = ''route6: 2001:67c::/32'' @ [nl]\<rparr>"

theorem prefix_object_found_iff_covered_witness:
  "count_list (lookupAddr (store_of \<lparr>uni_upper = id, uni_lower = id\<rparr> [(route6_example, ''RIPE'')])
     (V6 0x2001067C000000000000000000000001 [])) route6_example = 1"
proof -
  have p: "ParsePrefix (TrimSpace (PrimaryKey route6_example)) =
      Some (Prefix (V6 0x2001067C000000000000000000000000 []) 32)" by code_simp
  have c: "covers (Prefix (V6 0x2001067C000000000000000000000000 []) 32) (V6 0x2001067C000000000000000000000001 [])"
    by code_simp
  show ?thesis
    using prefix_object_found_iff_covered [OF _ p, of "V6 0x2001067C000000000000000000000001 []" _ "[(route6_example, ''RIPE'')]"]
    by (simp add: c) (simp add: route6_example_def)
qed

end
