(* ===== verification/Store_Order.thy ===== *)
theory Store_Order
  imports Store_Props
begin

section \<open>Names, counters and the order of insertion\<close>

text \<open>
  Facts on the store that follow from its description as a list: the counters, the lookup of
  objects by handle, domain and AS number, and that the order of the insertions (which the
  loader does not fix, as it loads files concurrently) changes the order within an answer only.
\<close>

subsection \<open>Counters\<close>

lemma gmap_int_copy [simp]: "gmap_int (copy_counts m) k = gmap_int m k"
  by (simp add: gmap_int_def copy_counts_def Mapping.lookup_default_def lookup_map_values option.map_ident
      split: option.splits)

text \<open>
  \<open>Counts\<close> reports for every class the number of inserted objects of that class, and
  \<open>CountsBySource\<close> for every source the number of objects inserted for it; a class or source
  that never occurred reads as 0.
\<close>

theorem counts_are_exact:
  "gmap_int (Counts (store_of u ins)) c = int (length (filter (\<lambda>x. Class (fst x) = c) ins)) \<and>
   gmap_int (CountsBySource (store_of u ins)) src = int (length (filter (\<lambda>x. snd x = src) ins))"
  by (simp add: Counts_def CountsBySource_def store_of_fields)

subsection \<open>Lookups by name\<close>

lemma first_hit_at:
  "P \<in> set Ps \<Longrightarrow> filter P obs \<noteq> [] \<Longrightarrow> first_hit Ps obs \<noteq> []"
  by (induction Ps) auto

lemma first_hit_sound:
  "ob \<in> set (first_hit Ps obs) \<Longrightarrow> ob \<in> set obs \<and> (\<exists>P \<in> set Ps. P ob)"
  by (induction Ps) (auto split: if_splits)

lemma upper_byte_upper [simp]: "upper_byte (upper_byte c) = upper_byte c"
  by (auto simp: upper_byte_def)

lemma upper_byte_ascii: "byte c < 128 \<Longrightarrow> byte (upper_byte c) < 128"
  by (auto simp: upper_byte_def)

lemma ToUpper_idem: "is_ascii s \<Longrightarrow> ToUpper u (ToUpper u s) = ToUpper u s"
  by (auto simp: ToUpper_def is_ascii_def list_all_iff upper_byte_ascii comp_def)

lemma nic_loop_plain: "nic_loop s x y \<Longrightarrow> list_all (\<lambda>c. is_alpha c \<or> is_digit c \<or> c = CHR ''-'') s"
  by (induction s x y rule: nic_loop.induct) (auto split: if_splits)

lemma isNicHandle_ascii: "isNicHandle s \<Longrightarrow> is_ascii s"
  using nic_loop_plain [of s False False]
  by (auto simp: isNicHandle_def is_ascii_def list_all_iff is_alpha_def is_digit_def)

text \<open>
  A string of letters, digits and dashes is no address: every address has a dot or a colon.
\<close>

lemma parse_dispatch_plain:
  "list_all (\<lambda>c. c \<noteq> CHR ''.'' \<and> c \<noteq> CHR '':'' \<and> c \<noteq> CHR ''%'') t \<Longrightarrow> parse_dispatch s t = None"
  by (induction t) auto

lemma cut_last_byte_None: "c \<notin> set s \<Longrightarrow> cut_last_byte c s = None"
  by (induction s) auto

lemma nic_char_ne:
  assumes "is_alpha c \<or> is_digit c \<or> c = CHR ''-''"
  shows "c \<noteq> CHR ''.''" "c \<noteq> CHR '':''" "c \<noteq> CHR ''%''" "c \<noteq> CHR ''/''" "\<not> ascii_space c" "byte c < 128"
proof -
  have b: "byte c = 45 \<or> 48 \<le> byte c \<and> byte c \<le> 57 \<or> 65 \<le> byte c \<and> byte c \<le> 90 \<or> 97 \<le> byte c \<and> byte c \<le> 122"
    using assms by (auto simp: is_alpha_def is_digit_def)
  then have "byte c \<notin> {37, 46, 47, 58}" by auto
  then have "c \<notin> {CHR ''%'', CHR ''.'', CHR ''/'', CHR '':''}"
    by (rule contrapos_nn) (erule insertE | simp)+
  then show "c \<noteq> CHR ''.''" "c \<noteq> CHR '':''" "c \<noteq> CHR ''%''" "c \<noteq> CHR ''/''" by blast+
  show "\<not> ascii_space c" "byte c < 128" using b unfolding ascii_space_def by linarith+
qed

lemma handle_no_addr:
  assumes "isNicHandle q"
  shows "query_addr q = None" and "TrimSpace q = q" and "q \<noteq> []"
proof -
  have all: "\<forall>c \<in> set q. is_alpha c \<or> is_digit c \<or> c = CHR ''-''"
    using nic_loop_plain [of q False False] assms by (simp add: isNicHandle_def list_all_iff)
  have "ParseAddr q = None"
    unfolding ParseAddr_def by (rule parse_dispatch_plain) (use all nic_char_ne in \<open>auto simp: list_all_iff\<close>)
  moreover have "CHR ''/'' \<notin> set q" using all nic_char_ne(4) by blast
  ultimately show "query_addr q = None" by (simp add: query_addr_def ParsePrefix_def cut_last_byte_None)
  show "TrimSpace q = q" by (rule TrimSpace_plain) (use all nic_char_ne in \<open>auto simp: list_all_iff\<close>)
  show "q \<noteq> []" using assms by (auto simp: isNicHandle_def)
qed

text \<open>
  A person or role is found by its handle, written in any case: when the handle does not
  start with the letters of an AS number, \<open>Lookup\<close> returns exactly the persons and roles whose
  handle is the same up to case, in insertion order.
\<close>

theorem handle_lookup_complete:
  assumes "isNicHandle q" and "\<not> HasPrefix (ToUpper u q) ''AS''"
    and "ob \<in> set (map fst ins)" and "handle_key u ob = Some (ToUpper u q)"
  shows "store_Lookup u (store_of u ins) q = filter (\<lambda>ob. handle_key u ob = Some (ToUpper u q)) (map fst ins)"
proof -
  have "filter (\<lambda>ob. handle_key u ob = Some (ToUpper u q)) (map fst ins) \<noteq> []"
    using assms(3,4) by (simp only: filter_empty_conv) blast
  with assms(1,2) handle_no_addr [OF assms(1)] show ?thesis
    by (simp add: store_Lookup_spec spec_Lookup_def name_conditions_def)
qed

definition person_example :: Object where
  "person_example = \<lparr>Class = ''person'', PrimaryKey = ''A. Body'', NicHdl = ''ab1-ripe'',
     Handles = [[], [], [], []], Raw = ''person: A. Body'' @ [nl]\<rparr>"

theorem handle_lookup_complete_witness:
  "store_Lookup \<lparr>uni_upper = id, uni_lower = id\<rparr>
     (store_of \<lparr>uni_upper = id, uni_lower = id\<rparr> [(inetnum_example, ''RIPE''), (person_example, ''RIPE'')]) ''AB1-ripe'' =
   [person_example]"
proof -
  let ?u = "\<lparr>uni_upper = id, uni_lower = id\<rparr>" and ?ins = "[(inetnum_example, ''RIPE''), (person_example, ''RIPE'')]"
  have 1: "isNicHandle ''AB1-ripe''" by code_simp
  have 2: "\<not> HasPrefix (ToUpper ?u ''AB1-ripe'') ''AS''" by code_simp
  have 3: "handle_key ?u person_example = Some (ToUpper ?u ''AB1-ripe'')"
    "handle_key ?u inetnum_example = None" by (code_simp, code_simp)
  show ?thesis using handle_lookup_complete [OF 1 2 _ 3(1), of ?ins] 3 by simp
qed

text \<open>
  \<open>Lookup\<close> never invents an object: every object it returns was inserted.
\<close>

theorem lookup_sound: "set (store_Lookup u (store_of u ins) q) \<subseteq> set (map fst ins)"
proof -
  have "set (covering (entries f ins) a) \<subseteq> set (map fst ins)" for f a
    by (auto simp: covering_set entries_def)
  moreover have "set (first_hit Ps (map fst ins)) \<subseteq> set (map fst ins)" for Ps
    using first_hit_sound by blast
  ultimately show ?thesis
    by (simp add: store_Lookup_spec spec_Lookup_def Let_def split: option.split)
qed

subsection \<open>The order of insertion\<close>

lemma mset_first_hit:
  assumes "mset obs = mset obs'"
  shows "mset (first_hit Ps obs) = mset (first_hit Ps obs')"
proof (induction Ps)
  case (Cons P Ps)
  have "mset (filter P obs) = mset (filter P obs')" using assms by simp
  then have "filter P obs = [] \<longleftrightarrow> filter P obs' = []" by (metis mset_zero_iff)
  with Cons assms show ?case by simp
qed simp

lemma mset_concat_map: "mset (concat (map g xs)) = sum_mset (image_mset (\<lambda>x. mset (g x)) (mset xs))"
  by (induction xs) auto

lemma mset_entries: "mset ins = mset ins' \<Longrightarrow> mset (entries f ins) = mset (entries f ins')"
  by (simp add: entries_def mset_concat_map)

lemma Lookup_order:
  assumes "mset ins = mset ins'"
  shows "mset (store_Lookup u (store_of u ins) q) = mset (store_Lookup u (store_of u ins') q)"
proof -
  have "mset (covering (entries f ins) a) = mset (covering (entries f ins') a)" for f a
    using mset_entries [OF assms, of f] by (simp add: covering_def)
  moreover have "mset (map fst ins) = mset (map fst ins')" using assms by simp
  ultimately show ?thesis
    using mset_first_hit by (simp add: store_Lookup_spec spec_Lookup_def Let_def split: option.split)
qed

lemma byKey_empty_iff: "Mapping.is_empty (byKey (insert_all u ins NewStore)) \<longleftrightarrow> ins = []"
proof (cases ins rule: rev_cases)
  case (snoc xs x)
  then show ?thesis by (simp add: insert_all_def Insert_fields)
qed (simp add: insert_all_def)

end
