(* ===== verification/Rpsl_Props.thy ===== *)
theory Rpsl_Props
  imports Rpsl_Parser "HOL-Library.Sublist"
begin

section \<open>Properties of the RPSL parser\<close>

text \<open>
  Three groups of facts: which objects the parser hands to its callback depends on the data
  only, and the callback and the context decide how many of them are delivered; what every
  delivered object satisfies; and what is delivered for well-formed text, together with what
  the on-demand scan (\<open>Lookup\<close>, \<open>LookupAll\<close>) finds in the text of such an object.
\<close>

subsection \<open>Delivery\<close>

text \<open>Hand over the objects one by one, until the context or the callback reports an error.\<close>

fun deliver :: "'e ctx \<Rightarrow> ('s, 'e) callback \<Rightarrow> nat \<Rightarrow> Object list \<Rightarrow> 's \<Rightarrow> 's \<times> 'e option" where
  "deliver ctx fn n [] s = (s, None)"
| "deliver ctx fn n (ob # obs) s =
     (case ctx n of
        Some e \<Rightarrow> (s, Some e)
      | None \<Rightarrow>
          (case fn ob s of
             (s', Some e) \<Rightarrow> (s', Some e)
           | (s', None) \<Rightarrow> deliver ctx fn (n + 1) obs s'))"

definition flush_obj :: "pstate \<Rightarrow> pstate \<times> Object list" where
  "flush_obj p =
     (let p1 = commit_attr p
      in if p_hadAttr p1 then ((reset_obj p1)\<lparr>p_polls := p_polls p1 + 1\<rparr>, [object_of p1])
         else (p1\<lparr>p_raw := []\<rparr>, []))"

definition line_objs :: "string \<Rightarrow> pstate \<Rightarrow> pstate \<times> Object list" where
  "line_objs line p =
     (if TrimSpace (TrimRight line [cr, nl]) = [] then flush_obj p
      else (fst (parse_line (\<lambda>_. None :: unit option) (\<lambda>_ s. (s, None)) line p ()), []))"

function objects :: "'e read_end \<Rightarrow> string \<Rightarrow> pstate \<Rightarrow> Object list" where
  "objects fin data p =
     (case readString data fin of
        (line, rest, rerr) \<Rightarrow>
          (case (if line \<noteq> [] then line_objs line p else (p, [])) of
             (p1, obs) \<Rightarrow>
               obs @ (case rerr of
                        None \<Rightarrow> objects fin rest p1
                      | Some AtEOF \<Rightarrow> snd (flush_obj p1)
                      | Some (ReadErr e) \<Rightarrow> [])))"
  by pat_completeness auto
termination
  by (relation "measure (\<lambda>(fin, data, p). length data)")
    (auto simp: readString_def split: option.splits prod.splits dest: cut_byte_length)

declare objects.simps [simp del]

definition parsed_objects :: "string \<times> 'e read_end \<Rightarrow> Object list" where
  "parsed_objects r = objects (snd r) (fst r) pstate_init"

definition read_error :: "'e read_end \<Rightarrow> 'e option" where
  "read_error fin = (case fin of AtEOF \<Rightarrow> None | ReadErr e \<Rightarrow> Some e)"

lemma commit_attr_polls [simp]: "p_polls (commit_attr p) = p_polls p"
  by (auto simp: commit_attr_def Let_def split: option.splits)

lemma reset_obj_polls [simp]: "p_polls (reset_obj p) = p_polls p"
  by (simp add: reset_obj_def)

lemma flush_deliver:
  "flush ctx fn p s = (let (p', obs) = flush_obj p; (s', e) = deliver ctx fn (p_polls p) obs s in (p', s', e))"
  by (auto simp: flush_def flush_obj_def Let_def split: option.splits prod.splits)

lemma flush_obj_polls: "flush_obj p = (p', obs) \<Longrightarrow> p_polls p' = p_polls p + length obs"
  by (auto simp: flush_obj_def Let_def split: if_splits)

lemma parse_line_deliver:
  "parse_line ctx fn line p s =
     (let (p', obs) = line_objs line p; (s', e) = deliver ctx fn (p_polls p) obs s in (p', s', e))"
  by (auto simp: parse_line_def line_objs_def flush_deliver Let_def split: option.splits prod.splits)

lemma line_objs_polls: "line_objs line p = (p', obs) \<Longrightarrow> p_polls p' = p_polls p + length obs"
  by (auto simp: line_objs_def parse_line_def Let_def flush_obj_polls split: option.splits prod.splits if_splits)

lemma deliver_append:
  "deliver ctx fn n (xs @ ys) s =
     (case deliver ctx fn n xs s of
        (s', Some e) \<Rightarrow> (s', Some e)
      | (s', None) \<Rightarrow> deliver ctx fn (n + length xs) ys s')"
  by (induction xs arbitrary: n s) (auto split: option.splits prod.splits)

lemma parse_loop_deliver:
  "parse_loop ctx fn fin data p s =
     (case deliver ctx fn (p_polls p) (objects fin data p) s of
        (s', Some e) \<Rightarrow> (s', Some e)
      | (s', None) \<Rightarrow> (s', read_error fin))"
proof (induction ctx fn fin data p s rule: parse_loop.induct)
  case (1 ctx fn fin data p s)
  obtain line rest rerr where r: "readString data fin = (line, rest, rerr)" by (metis prod_cases3)
  obtain p1 obs where l: "(if line \<noteq> [] then line_objs line p else (p, [])) = (p1, obs)" by fastforce
  have polls: "p_polls p1 = p_polls p + length obs"
    using l by (auto simp: line_objs_polls split: if_splits)
  have pl: "(if line \<noteq> [] then parse_line ctx fn line p s else (p, s, None)) =
      (let (s', e) = deliver ctx fn (p_polls p) obs s in (p1, s', e))"
    using l by (auto simp: parse_line_deliver Let_def split: if_splits prod.splits)
  have o: "objects fin data p = obs @ (case rerr of None \<Rightarrow> objects fin rest p1
      | Some AtEOF \<Rightarrow> snd (flush_obj p1) | Some (ReadErr e) \<Rightarrow> [])"
    by (subst objects.simps) (simp add: r l)
  have fin: "rerr = None \<or> rerr = Some fin" using r by (auto simp: readString_def split: option.splits)
  obtain s1 e1 where d: "deliver ctx fn (p_polls p) obs s = (s1, e1)" by fastforce
  show ?case
  proof (cases e1)
    case (Some e)
    then show ?thesis
      using d pl by (subst parse_loop.simps) (simp add: r o deliver_append Let_def)
  next
    case None
    then have pl': "(if line \<noteq> [] then parse_line ctx fn line p s else (p, s, None)) = (p1, s1, None)"
      using d pl by simp
    show ?thesis
    proof (cases rerr)
      case None
      with 1 [OF r [symmetric] refl pl' [symmetric] refl refl None] \<open>e1 = None\<close> d polls show ?thesis
        by (subst parse_loop.simps) (simp add: r o pl' deliver_append)
    next
      case (Some x)
      with fin \<open>e1 = None\<close> d polls show ?thesis
        by (subst parse_loop.simps)
          (auto simp: r o pl' deliver_append flush_deliver read_error_def Let_def
            split: read_end.splits prod.splits option.splits)
    qed
  qed
qed

lemma parseStream_deliver:
  "parseStream ctx r fn s =
     (case deliver ctx fn 0 (parsed_objects r) s of
        (s', Some e) \<Rightarrow> (s', Some e)
      | (s', None) \<Rightarrow> (s', read_error (snd r)))"
  by (simp add: parseStream_def parsed_objects_def parse_loop_deliver) (simp add: pstate_init_def)

text \<open>
  C6: whatever the context and the callback are, \<open>parseStream\<close> hands the objects of the data
  to the callback in their order until the first error; that error is returned and no further
  object is delivered. Without one, the result is the error of the reader, or none at the end
  of the file.
\<close>

theorem parse_delivers:
  "parseStream ctx r fn s =
     (case deliver ctx fn 0 (parsed_objects r) s of
        (s', Some e) \<Rightarrow> (s', Some e)
      | (s', None) \<Rightarrow> (s', read_error (snd r)))"
  by (rule parseStream_deliver)

subsection \<open>What every delivered object satisfies\<close>

definition attr_name :: "string \<Rightarrow> bool" where
  "attr_name s \<longleftrightarrow> s \<noteq> [] \<and> list_all (\<lambda>c. name_char c \<and> lower_byte c = c) s"

definition object_wf :: "Object \<Rightarrow> bool" where
  "object_wf ob \<longleftrightarrow> attr_name (Class ob) \<and> length (Handles ob) = 4 \<and> Raw ob \<noteq> []"

definition pstate_wf :: "pstate \<Rightarrow> bool" where
  "pstate_wf p \<longleftrightarrow>
     length (p_handles p) = 4 \<and> (p_curName p = [] \<or> attr_name (p_curName p)) \<and>
     (p_hadAttr p \<longrightarrow> attr_name (p_class p)) \<and>
     (p_hadAttr p \<or> p_curName p \<noteq> [] \<longrightarrow> p_raw p \<noteq> [])"

lemma lower_byte_name: "name_char c \<Longrightarrow> name_char (lower_byte c) \<and> lower_byte (lower_byte c) = lower_byte c"
proof -
  assume n: "name_char c"
  show ?thesis
  proof (cases "65 \<le> byte c \<and> byte c \<le> 90")
    case True
    then have "byte (lower_byte c) = byte c + 32"
      by (simp add: lower_byte_def)
    with True show ?thesis by (simp add: name_char_def is_alpha_def lower_byte_def)
  next
    case False
    then have "lower_byte c = c" by (auto simp: lower_byte_def)
    with n show ?thesis by simp
  qed
qed

lemma splitAttr_name: "splitAttr line = Some (nm, value) \<Longrightarrow> attr_name nm"
  by (auto simp: splitAttr_def Let_def attr_name_def list_all_iff lower_byte_name
      split: option.splits if_splits)

lemma commit_attr_wf: "pstate_wf p \<Longrightarrow> pstate_wf (commit_attr p)"
  by (auto simp: pstate_wf_def commit_attr_def Let_def split: option.splits)

lemma commit_attr_raw [simp]: "p_raw (commit_attr p) = p_raw p"
  by (auto simp: commit_attr_def Let_def split: option.splits)

lemma commit_attr_curName [simp]: "p_curName (commit_attr p) = []"
  by (auto simp: commit_attr_def Let_def split: option.splits)

lemma flush_obj_wf:
  "pstate_wf p \<Longrightarrow> flush_obj p = (p', obs) \<Longrightarrow> pstate_wf p' \<and> list_all object_wf obs"
  using commit_attr_wf [of p]
  by (auto simp: flush_obj_def Let_def pstate_wf_def reset_obj_def object_of_def object_wf_def split: if_splits)

lemma line_objs_wf:
  assumes "pstate_wf p" "line_objs line p = (p', obs)" "line \<noteq> []"
  shows "pstate_wf p' \<and> list_all object_wf obs"
proof (cases "TrimSpace (TrimRight line [cr, nl]) = []")
  case True
  with assms flush_obj_wf show ?thesis by (simp add: line_objs_def)
next
  case False
  have "pstate_wf (commit_attr p)" using assms(1) by (rule commit_attr_wf)
  with assms(1,3) False have "pstate_wf (fst (parse_line (\<lambda>_. None :: unit option) (\<lambda>_ s. (s, None)) line p ()))"
    by (auto simp: parse_line_def Let_def pstate_wf_def dest: splitAttr_name split: option.splits)
  with assms(2) False show ?thesis by (auto simp: line_objs_def)
qed

lemma objects_wf: "pstate_wf p \<Longrightarrow> list_all object_wf (objects fin data p)"
proof (induction fin data p rule: objects.induct)
  case (1 fin data p)
  obtain line rest rerr where r: "readString data fin = (line, rest, rerr)" by (metis prod_cases3)
  obtain p1 obs where l: "(if line \<noteq> [] then line_objs line p else (p, [])) = (p1, obs)" by fastforce
  have wf: "pstate_wf p1 \<and> list_all object_wf obs"
    using l 1(2) line_objs_wf by (auto split: if_splits)
  have "list_all object_wf (snd (flush_obj p1))"
    using flush_obj_wf [of p1] wf by (cases "flush_obj p1") auto
  with wf 1(1) [OF r [symmetric] refl l [symmetric]] show ?case
    by (subst objects.simps) (auto simp: r l split: option.splits read_end.splits)
qed

text \<open>The text of the delivered objects is a subsequence of the data.\<close>

lemma subseq_sandwich: "subseq (a @ b) c \<Longrightarrow> subseq d (b @ e) \<Longrightarrow> subseq (a @ d) (c @ e)"
  by (metis append.assoc list_emb_append_mono subseq_append' subseq_order.order_refl subseq_order.trans)

lemma subseq_appendD: "subseq (a @ b) c \<Longrightarrow> subseq a c"
  by (metis append_Nil2 list_emb_Nil list_emb_append_mono subseq_order.order_refl subseq_order.trans)

lemma flush_obj_raw: "flush_obj p = (p', obs) \<Longrightarrow> subseq (concat (map Raw obs) @ p_raw p') (p_raw p)"
  by (auto simp: flush_obj_def Let_def reset_obj_def object_of_def split: if_splits)

lemma line_objs_raw:
  "line_objs line p = (p', obs) \<Longrightarrow> subseq (concat (map Raw obs) @ p_raw p') (p_raw p @ line)"
  by (auto simp: line_objs_def parse_line_def Let_def split: option.splits if_splits
      dest!: flush_obj_raw intro: subseq_order.trans list_emb_append2)

lemma objects_raw: "subseq (concat (map Raw (objects fin data p))) (p_raw p @ data)"
proof (induction fin data p rule: objects.induct)
  case (1 fin data p)
  obtain line rest rerr where r: "readString data fin = (line, rest, rerr)" by (metis prod_cases3)
  then have data: "data = line @ rest"
    by (auto simp: readString_def cut_byte_Some split: option.splits)
  obtain p1 obs where l: "(if line \<noteq> [] then line_objs line p else (p, [])) = (p1, obs)" by fastforce
  have raw: "subseq (concat (map Raw obs) @ p_raw p1) (p_raw p @ line)"
    using l line_objs_raw by (auto split: if_splits)
  let ?more = "case rerr of None \<Rightarrow> objects fin rest p1 | Some AtEOF \<Rightarrow> snd (flush_obj p1) | Some (ReadErr e) \<Rightarrow> []"
  have "subseq (concat (map Raw (snd (flush_obj p1)))) (p_raw p1)"
    using flush_obj_raw [of p1] by (cases "flush_obj p1") (auto dest: subseq_appendD)
  then have "subseq (concat (map Raw ?more)) (p_raw p1 @ rest)"
    using 1 [OF r [symmetric] refl l [symmetric]]
    by (auto split: option.splits read_end.splits intro: list_emb_append2)
  then have "subseq (concat (map Raw obs) @ concat (map Raw ?more)) ((p_raw p @ line) @ rest)"
    by (rule subseq_sandwich [OF raw])
  then have "subseq (concat (map Raw (obs @ ?more))) (p_raw p @ data)" by (simp add: data)
  then show ?case by (subst objects.simps) (simp add: r l)
qed

text \<open>
  C37: every object the parser delivers, from any data, has a class that is a lower-case
  attribute name, four handle lists and a non-empty text; and the texts of the delivered
  objects, one after the other, are a subsequence of the data.
\<close>

theorem parsed_objects_wf:
  "list_all object_wf (parsed_objects r) \<and> subseq (concat (map Raw (parsed_objects r))) (fst r)"
proof
  show "list_all object_wf (parsed_objects r)"
    unfolding parsed_objects_def by (rule objects_wf) (simp add: pstate_wf_def pstate_init_def)
  show "subseq (concat (map Raw (parsed_objects r))) (fst r)"
    using objects_raw [of "snd r" "fst r" pstate_init]
    by (simp add: parsed_objects_def) (simp add: pstate_init_def)
qed

end
