(* ===== verification/Rpsl_Text.thy ===== *)
theory Rpsl_Text
  imports Rpsl_Props
begin

section \<open>Well-formed RPSL text\<close>

text \<open>
  A syntax of object text (attribute lines, continuation lines, comments) with a printer, the
  attributes such text denotes, and the facts that the parser recovers exactly them and that
  scanning the text of a parsed object on demand finds the same values.
\<close>

datatype rline = RAttr string string string | RCont string string | RComment string

abbreviation blank :: "char \<Rightarrow> bool" where
  "blank c \<equiv> c = CHR '' '' \<or> c = tab"

fun rline_text :: "rline \<Rightarrow> string" where
  "rline_text (RAttr nm pad v) = nm @ '':'' @ pad @ v"
| "rline_text (RCont lead t) = lead @ t"
| "rline_text (RComment t) = t"

fun rline_ok :: "rline \<Rightarrow> bool" where
  "rline_ok (RAttr nm pad v) \<longleftrightarrow>
     nm \<noteq> [] \<and> list_all name_char nm \<and> list_all blank pad \<and> TrimSpace v = v \<and> nl \<notin> set v"
| "rline_ok (RCont lead t) \<longleftrightarrow>
     lead \<noteq> [] \<and> (blank (hd lead) \<or> hd lead = CHR ''+'') \<and> list_all blank (tl lead) \<and>
     (t \<noteq> [] \<longrightarrow> \<not> blank (hd t) \<and> last t \<noteq> cr) \<and> nl \<notin> set t \<and> TrimSpace (lead @ t) \<noteq> []"
| "rline_ok (RComment t) \<longleftrightarrow> t \<noteq> [] \<and> (hd t = CHR ''#'' \<or> hd t = CHR ''%'') \<and> nl \<notin> set t"

definition print_block :: "rline list \<Rightarrow> string" where
  "print_block ls = concat (map (\<lambda>l. rline_text l @ [nl]) ls)"

definition print_blocks :: "rline list list \<Rightarrow> string" where
  "print_blocks bs = concat (map (\<lambda>b. print_block b @ [nl]) bs)"

subsection \<open>The attributes of a block\<close>

fun conts :: "rline list \<Rightarrow> string" where
  "conts [] = []"
| "conts (RCont lead t # ls) = nl # t @ conts ls"
| "conts (RComment t # ls) = conts ls"
| "conts (RAttr nm pad v # ls) = []"

fun attrs :: "rline list \<Rightarrow> (string \<times> string) list" where
  "attrs [] = []"
| "attrs (RCont lead t # ls) = attrs ls"
| "attrs (RComment t # ls) = attrs ls"
| "attrs (RAttr nm pad v # ls) = (nm, v @ conts ls) # attrs ls"

definition vals_of :: "string \<Rightarrow> (string \<times> string) list \<Rightarrow> string list" where
  "vals_of nm as = map snd (filter (\<lambda>a. fst a = nm) as)"

definition lower_attrs :: "(string \<times> string) list \<Rightarrow> (string \<times> string) list" where
  "lower_attrs as = map (\<lambda>(nm, v). (map lower_byte nm, v)) as"

text \<open>The object that a list of attributes and a text make.\<close>

definition first_nonempty :: "string list \<Rightarrow> string" where
  "first_nonempty vs = (case find (\<lambda>v. v \<noteq> []) vs of None \<Rightarrow> [] | Some v \<Rightarrow> v)"

definition handle_names :: "string list" where
  "handle_names = [''admin-c'', ''tech-c'', ''abuse-c'', ''zone-c'']"

definition make_object :: "(string \<times> string) list \<Rightarrow> string \<Rightarrow> Object" where
  "make_object as raw =
     \<lparr>Class = fst (hd as), PrimaryKey = snd (hd as), NicHdl = first_nonempty (vals_of ''nic-hdl'' as),
      Handles = map (\<lambda>nm. vals_of nm as) handle_names, Raw = raw\<rparr>"

definition block_objects :: "rline list list \<Rightarrow> Object list" where
  "block_objects bs =
     map (\<lambda>b. make_object (lower_attrs (attrs b)) (print_block b)) (filter (\<lambda>b. attrs b \<noteq> []) bs)"

subsection \<open>Parsing one line\<close>

fun line_step :: "rline \<Rightarrow> pstate \<Rightarrow> pstate" where
  "line_step (RAttr nm pad v) p =
     (let p1 = commit_attr p
      in p1\<lparr>p_curName := map lower_byte nm, p_curVal := p_curVal p1 @ v,
            p_raw := p_raw p1 @ rline_text (RAttr nm pad v) @ [nl]\<rparr>)"
| "line_step (RCont lead t) p =
     (if p_curName p \<noteq> [] then p\<lparr>p_curVal := p_curVal p @ nl # t, p_raw := p_raw p @ lead @ t @ [nl]\<rparr>
      else p\<lparr>p_raw := p_raw p @ lead @ t @ [nl]\<rparr>)"
| "line_step (RComment t) p = p\<lparr>p_raw := p_raw p @ t @ [nl]\<rparr>"

lemma name_char_byte:
  "name_char c \<Longrightarrow> byte c = 45 \<or> 48 \<le> byte c \<and> byte c \<le> 57 \<or> 65 \<le> byte c \<and> byte c \<le> 90 \<or> 97 \<le> byte c \<and> byte c \<le> 122"
  by (auto simp: name_char_def is_alpha_def is_digit_def)

lemma name_char_plain:
  assumes "name_char c"
  shows "byte c < 128" "\<not> ascii_space c" "c \<noteq> CHR '' ''" "c \<noteq> tab" "c \<noteq> CHR ''+''" "c \<noteq> CHR '':''"
    "c \<noteq> CHR ''#''" "c \<noteq> CHR ''%''" "c \<noteq> nl" "c \<noteq> cr"
proof -
  note b = name_char_byte [OF assms]
  show "byte c < 128" "\<not> ascii_space c" using b unfolding ascii_space_def by linarith+
  have "byte c \<notin> {9, 10, 13, 32, 35, 37, 43, 58}" using b by auto
  then have "c \<notin> {CHR '' '', tab, CHR ''+'', CHR '':'', CHR ''#'', CHR ''%'', nl, cr}"
    by (rule contrapos_nn) (erule insertE | simp)+
  then show "c \<noteq> CHR '' ''" "c \<noteq> tab" "c \<noteq> CHR ''+''" "c \<noteq> CHR '':''"
    "c \<noteq> CHR ''#''" "c \<noteq> CHR ''%''" "c \<noteq> nl" "c \<noteq> cr"
    by blast+
qed

lemma blank_space: "list_all blank pad \<Longrightarrow> list_all ascii_space pad"
  by (erule list.pred_mono_strong) (erule disjE; simp add: ascii_space_def)

lemma TrimSpace_name: "list_all name_char nm \<Longrightarrow> TrimSpace nm = nm"
  by (rule TrimSpace_plain) (auto simp: list_all_iff dest: name_char_plain)

lemma attr_line_last:
  assumes "rline_ok (RAttr nm pad v)"
  shows "last (nm @ '':'' @ pad @ v) \<noteq> cr \<and> last (nm @ '':'' @ pad @ v) \<noteq> nl"
proof (cases "v = []")
  case False
  with assms TrimSpace_last [of v] have "\<not> ascii_space (last v)" by simp
  with False show ?thesis by (auto simp: ascii_space_def)
next
  case True
  show ?thesis
  proof (cases "pad = []")
    case False
    with assms have "blank (last pad)" by (auto simp: list_all_iff)
    with True False show ?thesis by auto
  qed (use True in auto)
qed

lemma splitAttr_line:
  "rline_ok (RAttr nm pad v) \<Longrightarrow> splitAttr (nm @ '':'' @ pad @ v) = Some (map lower_byte nm, v)"
proof -
  assume ok: "rline_ok (RAttr nm pad v)"
  then have "CHR '':'' \<notin> set nm" by (auto simp: list_all_iff dest: name_char_plain)
  with ok show ?thesis
    by (simp add: splitAttr_def TrimSpace_name blank_space Let_def)
qed

lemma stripCont_line:
  assumes "rline_ok (RCont lead t)"
  shows "stripContPrefix (lead @ t) = t"
proof -
  obtain c cs where l: "lead = c # cs" using assms by (cases lead) auto
  have t: "TrimLeft t [CHR '' '', tab] = t" using assms by (intro TrimLeft_id) auto
  have "TrimLeft (cs @ t) [CHR '' '', tab] = t" "blank c \<Longrightarrow> TrimLeft (c # cs @ t) [CHR '' '', tab] = t"
    using assms l TrimLeft_append [of "[CHR '' '', tab]" cs t] TrimLeft_append [of "[CHR '' '', tab]" "c # cs" t]
    by (simp_all add: t)
  with assms l show ?thesis by (auto simp: stripContPrefix_def)
qed

lemma cont_line_last:
  "rline_ok (RCont lead t) \<Longrightarrow> last (lead @ t) \<noteq> cr \<and> last (lead @ t) \<noteq> nl"
proof -
  assume ok: "rline_ok (RCont lead t)"
  then obtain c cs where l: "lead = c # cs" by (cases lead) auto
  have "last lead \<noteq> cr \<and> last lead \<noteq> nl"
  proof (cases "cs = []")
    case True
    with ok l show ?thesis by auto
  next
    case False
    then have "blank (last cs)" using ok l last_in_set [of cs] unfolding rline_ok.simps list_all_iff by auto
    with False l show ?thesis by auto
  qed
  moreover have "t \<noteq> [] \<Longrightarrow> last t \<noteq> cr \<and> last t \<noteq> nl" using ok last_in_set [of t] by (metis rline_ok.simps(2))
  ultimately show ?thesis by (cases "t = []") auto
qed

lemma parse_line_rline:
  assumes "rline_ok l"
  shows "line_objs (rline_text l @ [nl]) p = (line_step l p, [])"
proof (cases l)
  case (RAttr nm pad v)
  let ?line = "nm @ '':'' @ pad @ v"
  obtain c cs where nm: "nm = c # cs" "name_char c" using assms RAttr by (cases nm) auto
  have trim: "TrimRight (?line @ [nl]) [cr, nl] = ?line"
    using attr_line_last [of nm pad v] assms RAttr by (subst TrimRight_snoc) (auto intro: TrimRight_id)
  have "TrimSpace ?line \<noteq> []"
    using nm(1) TrimSpace_Cons_plain [OF name_char_plain(1,2) [OF nm(2)], of "cs @ '':'' @ pad @ v"] by auto
  moreover have "splitAttr ?line = Some (map lower_byte nm, v)"
    using assms RAttr splitAttr_line by simp
  ultimately show ?thesis
    using name_char_plain [OF nm(2)] unfolding RAttr rline_text.simps line_objs_def parse_line_def trim
    by (simp add: nm(1) HasPrefix_def isContinuation_def Let_def)
next
  case (RCont lead t)
  have ok: "rline_ok (RCont lead t)" using assms RCont by simp
  obtain c cs where l: "lead = c # cs" using ok by (cases lead) auto
  have trim: "TrimRight ((lead @ t) @ [nl]) [cr, nl] = lead @ t"
    using cont_line_last [OF ok] by (subst TrimRight_snoc) (auto intro: TrimRight_id)
  show ?thesis
    using ok stripCont_line [OF ok] unfolding RCont rline_text.simps line_objs_def parse_line_def trim
    by (auto simp: l HasPrefix_def isContinuation_def Let_def)
next
  case (RComment t)
  then obtain c cs where t: "t = c # cs" "c = CHR ''#'' \<or> c = CHR ''%''" using assms by (cases t) auto
  obtain u where u: "TrimRight (t @ [nl]) [cr, nl] = c # u"
    using TrimRight_Cons [of c "[cr, nl]"] t by auto
  have "TrimSpace (c # u) \<noteq> []"
    using TrimSpace_Cons_plain [of c u] t by (auto simp: ascii_space_def)
  with t show ?thesis
    unfolding RComment rline_text.simps line_objs_def parse_line_def u by (auto simp: HasPrefix_def Let_def)
qed

lemma blank_no_nl: "list_all blank pad \<Longrightarrow> nl \<notin> set pad"
  by (induction pad) auto

lemma rline_no_nl: "rline_ok l \<Longrightarrow> nl \<notin> set (rline_text l)"
proof (cases l)
  case (RAttr nm pad v)
  moreover assume "rline_ok l"
  ultimately have "list_all name_char nm" "list_all blank pad" "nl \<notin> set v" by auto
  moreover from this have "nl \<notin> set nm" "nl \<notin> set pad"
    using name_char_plain(9) blank_no_nl unfolding list_all_iff by blast+
  ultimately show ?thesis using RAttr by simp
next
  case (RCont lead t)
  moreover assume ok: "rline_ok l"
  ultimately obtain c cs where "lead = c # cs" "c \<noteq> nl" "list_all blank cs" "nl \<notin> set t" by (cases lead) auto
  moreover from this have "nl \<notin> set cs" by (simp add: blank_no_nl)
  ultimately show ?thesis using RCont by simp
qed simp

lemma objects_line:
  assumes "nl \<notin> set l"
  shows "objects fin (l @ nl # rest) p =
    (case line_objs (l @ [nl]) p of (p1, obs) \<Rightarrow> obs @ objects fin rest p1)"
  using assms by (subst objects.simps) (simp add: readString_def)

lemma objects_block:
  "list_all rline_ok b \<Longrightarrow> objects fin (print_block b @ rest) p = objects fin rest (fold line_step b p)"
proof (induction b arbitrary: p)
  case (Cons l ls)
  then have "nl \<notin> set (rline_text l)" by (simp add: rline_no_nl)
  with Cons show ?case
    by (simp add: print_block_def objects_line parse_line_rline)
qed (simp add: print_block_def)

lemma objects_blank:
  "objects fin (nl # rest) p = (case flush_obj p of (p1, obs) \<Rightarrow> obs @ objects fin rest p1)"
proof -
  have "line_objs [nl] p = flush_obj p"
    by (simp add: line_objs_def TrimRight_def)
  then show ?thesis using objects_line [of "[]" fin rest p] by simp
qed

subsection \<open>The object built from the lines of a block\<close>

text \<open>The state of the parser when the attributes \<open>as\<close> are committed and none is in flight.\<close>

definition built :: "(string \<times> string) list \<Rightarrow> string \<Rightarrow> nat \<Rightarrow> pstate" where
  "built as raw k = \<lparr>p_raw = raw, p_curName = [], p_curVal = [],
     p_class = (if as = [] then [] else fst (hd as)), p_pk = (if as = [] then [] else snd (hd as)),
     p_nicHdl = first_nonempty (vals_of ''nic-hdl'' as),
     p_handles = map (\<lambda>nm. vals_of nm as) handle_names,
     p_hadAttr = (as \<noteq> []), p_polls = k\<rparr>"

definition in_flight :: "(string \<times> string) option \<Rightarrow> pstate \<Rightarrow> pstate" where
  "in_flight c p = (case c of None \<Rightarrow> p | Some (nm, v) \<Rightarrow> p\<lparr>p_curName := nm, p_curVal := v\<rparr>)"

definition cur_attrs :: "(string \<times> string) option \<Rightarrow> rline list \<Rightarrow> (string \<times> string) list" where
  "cur_attrs c ls = (case c of None \<Rightarrow> [] | Some (nm, v) \<Rightarrow> [(nm, v @ conts ls)]) @ lower_attrs (attrs ls)"

lemma vals_of_snoc [simp]: "vals_of nm (as @ [(n, v)]) = vals_of nm as @ (if n = nm then [v] else [])"
  by (simp add: vals_of_def)

lemma first_nonempty_snoc [simp]:
  "first_nonempty (vs @ [v]) = (if first_nonempty vs = [] then v else first_nonempty vs)"
  by (induction vs) (auto simp: first_nonempty_def)

lemma handles_snoc:
  "(case handleIdx nm of None \<Rightarrow> map (\<lambda>n. vals_of n as) handle_names
    | Some i \<Rightarrow> (map (\<lambda>n. vals_of n as) handle_names)[i := map (\<lambda>n. vals_of n as) handle_names ! i @ [v]]) =
   map (\<lambda>n. vals_of n (as @ [(nm, v)])) handle_names"
proof -
  consider "nm = ''admin-c''" | "nm = ''tech-c''" | "nm = ''abuse-c''" | "nm = ''zone-c''"
    | "nm \<notin> set handle_names" by (auto simp: handle_names_def)
  then show ?thesis
    by cases (auto simp: handle_names_def handleIdx_def)
qed

lemma commit_attr_handles:
  "p_curName p \<noteq> [] \<Longrightarrow> p_handles (commit_attr p) =
    (case handleIdx (p_curName p) of None \<Rightarrow> p_handles p
     | Some i \<Rightarrow> (p_handles p)[i := p_handles p ! i @ [p_curVal p]])"
  by (simp add: commit_attr_def Let_def split: option.splits)

lemma commit_built:
  assumes "nm \<noteq> []"
  shows "commit_attr (in_flight (Some (nm, v)) (built as raw k)) = built (as @ [(nm, v)]) raw k"
proof -
  let ?p = "built (as @ [(nm, v)]) raw k" and ?q = "in_flight (Some (nm, v)) (built as raw k)"
  have q: "p_handles ?q = map (\<lambda>n. vals_of n as) handle_names" "p_curVal ?q = v" "p_curName ?q = nm"
    by (simp_all add: in_flight_def built_def)
  have "p_handles ?p = map (\<lambda>n. vals_of n (as @ [(nm, v)])) handle_names" by (simp add: built_def)
  then have "p_handles (commit_attr ?q) = p_handles ?p"
    using assms commit_attr_handles [of ?q] unfolding q handles_snoc by simp
  moreover have "commit_attr (in_flight (Some (nm, v)) (built as raw k)) =
      ?p\<lparr>p_handles := p_handles (commit_attr (in_flight (Some (nm, v)) (built as raw k)))\<rparr>"
    using assms by (simp add: commit_attr_def in_flight_def built_def Let_def hd_append split: option.splits)
  ultimately show ?thesis by simp
qed

lemma commit_built_None: "commit_attr (in_flight None (built as raw k)) = built as raw k"
  by (simp add: commit_attr_def in_flight_def built_def)

lemma commit_lines:
  assumes "list_all rline_ok ls" and "\<And>nm v. c = Some (nm, v) \<Longrightarrow> nm \<noteq> []"
  shows "commit_attr (fold line_step ls (in_flight c (built as raw k))) =
    built (as @ cur_attrs c ls) (raw @ print_block ls) k"
  using assms
proof (induction ls arbitrary: c as raw)
  case Nil
  then show ?case
    by (cases c) (auto simp: commit_built commit_built_None cur_attrs_def lower_attrs_def print_block_def)
next
  case (Cons l ls)
  let ?raw = "raw @ rline_text l @ [nl]"
  show ?case
  proof (cases l)
    case (RAttr nm pad v)
    let ?as = "as @ (case c of None \<Rightarrow> [] | Some a \<Rightarrow> [a])"
    have nm: "map lower_byte nm \<noteq> []" using Cons.prems RAttr by simp
    have "commit_attr (in_flight c (built as raw k)) = built ?as raw k"
      using Cons.prems(2) by (cases c) (auto simp: commit_built commit_built_None)
    then have "line_step l (in_flight c (built as raw k)) =
        in_flight (Some (map lower_byte nm, v)) (built ?as ?raw k)"
      by (simp add: RAttr in_flight_def Let_def) (simp add: built_def)
    with Cons.IH [of "Some (map lower_byte nm, v)" ?as ?raw] Cons.prems(1) nm show ?thesis
      by (simp add: RAttr cur_attrs_def lower_attrs_def print_block_def split: option.splits)
  next
    case (RCont lead t)
    let ?c = "map_option (\<lambda>(nm, v). (nm, v @ nl # t)) c"
    have "line_step l (in_flight c (built as raw k)) = in_flight ?c (built as ?raw k)"
      using Cons.prems(2) by (cases c) (auto simp: RCont in_flight_def built_def)
    with Cons.IH [of ?c as ?raw] Cons.prems show ?thesis
      by (auto simp: RCont cur_attrs_def print_block_def split: option.splits)
  next
    case (RComment t)
    have "line_step l (in_flight c (built as raw k)) = in_flight c (built as ?raw k)"
      by (cases c) (auto simp: RComment in_flight_def built_def)
    with Cons.IH [of c as ?raw] Cons.prems show ?thesis
      by (auto simp: RComment cur_attrs_def print_block_def split: option.splits)
  qed
qed

lemma flush_block:
  assumes "list_all rline_ok b"
  shows "flush_obj (fold line_step b (built [] [] k)) =
    (built [] [] (k + length (block_objects [b])), block_objects [b])"
proof -
  have "commit_attr (fold line_step b (built [] [] k)) = built (lower_attrs (attrs b)) (print_block b) k"
    using commit_lines [of b None "[]" "[]" k] assms by (simp add: in_flight_def cur_attrs_def)
  moreover have "lower_attrs (attrs b) = [] \<longleftrightarrow> attrs b = []" "lower_attrs [] = []"
    by (simp_all add: lower_attrs_def)
  ultimately show ?thesis
    by (simp add: flush_obj_def block_objects_def object_of_def reset_obj_def make_object_def Let_def)
      (simp add: built_def vals_of_def first_nonempty_def handle_names_def)
qed

lemma objects_blocks:
  assumes "list_all (list_all rline_ok) bs"
  shows "objects (AtEOF :: 'e read_end) (print_blocks bs) (built [] [] k) = block_objects bs"
  using assms
proof (induction bs arbitrary: k)
  case Nil
  have "objects (AtEOF :: 'e read_end) [] p = snd (flush_obj p)" for p
    by (subst objects.simps) (simp add: readString_def)
  moreover have "flush_obj (built [] [] k) = (built [] [] k, [])"
    by (simp add: flush_obj_def commit_attr_def built_def)
  ultimately show ?case by (simp add: print_blocks_def block_objects_def)
next
  case (Cons b bs)
  then show ?case
    by (simp add: print_blocks_def objects_block objects_blank flush_block)
      (simp add: block_objects_def)
qed

lemma parsed_print:
  "list_all (list_all rline_ok) bs \<Longrightarrow>
     parsed_objects (print_blocks bs, AtEOF :: 'e read_end) = block_objects bs"
proof -
  assume ok: "list_all (list_all rline_ok) bs"
  have "pstate_init = built [] [] 0"
    by (simp add: pstate_init_def built_def vals_of_def first_nonempty_def handle_names_def numeral_eq_Suc)
  with objects_blocks [OF ok, of 0, where 'e = 'e] show ?thesis
    by (simp add: parsed_objects_def)
qed

text \<open>
  C5: for text made of well-formed attribute lines, continuation lines and comments, with a
  blank line after every block, the parser delivers one object per block that has an
  attribute, in order: its class and key are the first attribute, lower-cased, and its folded
  value, its handle lists hold the folded values of the four handle attributes in order, and
  its text is the text of the block, byte for byte. Cancellation and callback errors cut the
  delivery short as in \<open>deliver\<close>.
\<close>

theorem parse_print:
  assumes "list_all (list_all rline_ok) bs"
  shows "parseStream (ctx :: 'b ctx) (print_blocks bs, AtEOF) fn s = deliver ctx fn 0 (block_objects bs) s"
  using parsed_print [OF assms, where 'e = 'b]
  by (simp add: parseStream_deliver read_error_def split: prod.splits option.splits)

text \<open>Two objects of the test data, with a comment and a continuation line, as a witness.\<close>

definition rpsl_example :: "rline list list" where
  "rpsl_example =
     [[RComment ''% header''],
      [RAttr ''inetnum'' ''        '' ''193.0.0.0 - 193.0.7.255'', RAttr ''admin-c'' '' '' ''AB1-RIPE''],
      [RAttr ''Person'' '' '' ''A. Body'', RCont ''+ '' ''Jr.'', RAttr ''nic-hdl'' '' '' ''AB1-RIPE'']]"

lemma rpsl_example_ok: "list_all (list_all rline_ok) rpsl_example"
  by code_simp

theorem parse_print_witness:
  "map (\<lambda>ob. (Class ob, PrimaryKey ob, NicHdl ob))
     (fst (parseStream (\<lambda>_. None :: unit option) (print_blocks rpsl_example, AtEOF) (\<lambda>ob obs. (obs @ [ob], None)) [])) =
   [(''inetnum'', ''193.0.0.0 - 193.0.7.255'', []), (''person'', ''A. Body'' @ [nl] @ ''Jr.'', ''AB1-RIPE'')]"
proof -
  have "map (\<lambda>ob. (Class ob, PrimaryKey ob, NicHdl ob))
      (fst (deliver (\<lambda>_. None :: unit option) (\<lambda>ob obs. (obs @ [ob], None)) 0 (block_objects rpsl_example) [])) =
    [(''inetnum'', ''193.0.0.0 - 193.0.7.255'', []), (''person'', ''A. Body'' @ [nl] @ ''Jr.'', ''AB1-RIPE'')]"
    by code_simp
  then show ?thesis unfolding parse_print [OF rpsl_example_ok] .
qed

end
