(* ===== verification/Manager.thy ===== *)
theory Manager
  imports Store_Order Rpsl_Text
begin

section \<open>Loading and swapping the store (internal/ripe/store.go, Manager)\<close>

text \<open>
  \<open>Reload\<close> parses the files in one goroutine each, and the goroutines insert into one new store
  under a mutex. A goroutine is a worker with the objects its file delivers and the error its
  parse ends with; a schedule, a list of worker numbers, says which worker takes the next step
  (an insertion, or its end, where it reports its error). When the schedule is used up the
  remaining workers run to their end in order, as \<open>wg.Wait()\<close> waits for all of them. Every
  interleaving of the goroutines is one of these schedules; the semaphore of four slots only
  rules some of them out. The swap of the pointer under the lock is the update of \<open>m_cur\<close>; the
  logger is left out.
\<close>

record SourceFile =
  sf_Source :: string
  sf_Class :: string
  sf_Path :: string
  sf_Changed :: bool

record Manager =
  m_cur :: Store
  m_lastReload :: int

definition NewManager :: Manager where
  "NewManager = \<lparr>m_cur = NewStore, m_lastReload = 0\<rparr>"

definition Current :: "Manager \<Rightarrow> Store" where
  "Current m = m_cur m"

definition LastReload :: "Manager \<Rightarrow> int" where
  "LastReload m = m_lastReload m"

definition IsEmpty :: "Manager \<Rightarrow> bool" where
  "IsEmpty m = Mapping.is_empty (byKey (m_cur m))"

datatype 'e load_error = FileError (le_source: string) (le_class: string) (le_cause: 'e)

record 'e worker =
  w_source :: string
  w_class :: string
  w_queue :: "Object list"
  w_err :: "'e option"
  w_done :: bool

record 'e load =
  l_store :: Store
  l_errs :: "'e load_error list"
  l_workers :: "'e worker list"

record 'e file_env =
  os_open :: "string \<Rightarrow> 'e + string \<times> 'e read_end"
  gunzip :: "string \<times> 'e read_end \<Rightarrow> 'e + string \<times> 'e read_end"

definition parse_file :: "'e file_env \<Rightarrow> 'e ctx \<Rightarrow> SourceFile \<Rightarrow> Object list \<times> 'e option" where
  "parse_file env ctx r = Parse (os_open env) (gunzip env) ctx (sf_Path r) (\<lambda>ob obs. (obs @ [ob], None)) []"

definition worker_of :: "'e file_env \<Rightarrow> 'e ctx \<Rightarrow> SourceFile \<Rightarrow> 'e worker" where
  "worker_of env ctx r =
     (let (obs, err) = parse_file env ctx r
      in \<lparr>w_source = sf_Source r, w_class = sf_Class r, w_queue = obs, w_err = err, w_done = False\<rparr>)"

definition load_step :: "unicode \<Rightarrow> nat \<Rightarrow> 'e load \<Rightarrow> 'e load" where
  "load_step u i L =
     (if i < length (l_workers L) then
        let w = l_workers L ! i in
        if w_done w then L
        else case w_queue w of
               ob # obs \<Rightarrow> L\<lparr>l_store := store_Insert u ob (w_source w) (l_store L),
                             l_workers := (l_workers L)[i := w\<lparr>w_queue := obs\<rparr>]\<rparr>
             | [] \<Rightarrow> L\<lparr>l_errs := l_errs L @ (case w_err w of None \<Rightarrow> [] | Some e \<Rightarrow> [FileError (w_source w) (w_class w) e]),
                       l_workers := (l_workers L)[i := w\<lparr>w_done := True\<rparr>]\<rparr>
      else L)"

definition drain :: "'e load \<Rightarrow> nat list" where
  "drain L = concat (map (\<lambda>i. replicate (length (w_queue (l_workers L ! i)) + 1) i) [0..<length (l_workers L)])"

definition load_all :: "unicode \<Rightarrow> nat list \<Rightarrow> 'e worker list \<Rightarrow> 'e load" where
  "load_all u sched ws =
     (let L = fold (load_step u) sched \<lparr>l_store = NewStore, l_errs = [], l_workers = ws\<rparr>
      in fold (load_step u) (drain L) L)"

definition workers_of :: "'e file_env \<Rightarrow> (nat \<Rightarrow> 'e ctx) \<Rightarrow> SourceFile list \<Rightarrow> 'e worker list" where
  "workers_of env ctx fetched = map (\<lambda>(i, r). worker_of env (ctx i) r) (enumerate 0 fetched)"

definition Reload ::
    "unicode \<Rightarrow> 'e file_env \<Rightarrow> (nat \<Rightarrow> 'e ctx) \<Rightarrow> nat list \<Rightarrow> int \<Rightarrow> SourceFile list \<Rightarrow> bool \<Rightarrow> Manager \<Rightarrow>
     Manager \<times> bool \<times> 'e load_error option" where
  "Reload u env ctx sched now fetched forceRebuild m =
     (let anyChanged = list_ex sf_Changed fetched in
      if \<not> forceRebuild \<and> \<not> anyChanged \<and> \<not> IsEmpty m then (m, False, None)
      else let L = load_all u sched (workers_of env ctx fetched)
           in if l_errs L \<noteq> [] then (m, False, Some (hd (l_errs L)))
              else (m\<lparr>m_cur := l_store L, m_lastReload := now\<rparr>, True, None))"

definition LoadFromFiles ::
    "unicode \<Rightarrow> 'e file_env \<Rightarrow> (nat \<Rightarrow> 'e ctx) \<Rightarrow> nat list \<Rightarrow> int \<Rightarrow> string \<Rightarrow> string list \<Rightarrow> Manager \<Rightarrow>
     Manager \<times> 'e load_error option" where
  "LoadFromFiles u env ctx sched now source paths m =
     (let wrapped = map (\<lambda>p. \<lparr>sf_Source = source, sf_Class = [], sf_Path = p, sf_Changed = True\<rparr>) paths;
          (m', _, err) = Reload u env ctx sched now wrapped True m
      in (m', err))"

subsection \<open>Every worker runs to its end\<close>

definition todo :: "'e worker \<Rightarrow> nat" where
  "todo w = (if w_done w then 0 else length (w_queue w) + 1)"

lemma load_step_length [simp]: "length (l_workers (load_step u i L)) = length (l_workers L)"
  by (auto simp: load_step_def Let_def split: list.splits)

lemma load_step_todo:
  "j < length (l_workers L) \<Longrightarrow>
     todo (l_workers (load_step u i L) ! j) = todo (l_workers L ! j) - (if i = j then 1 else 0)"
  by (auto simp: load_step_def Let_def todo_def nth_list_update split: list.splits)

lemma loads_todo:
  "j < length (l_workers L) \<Longrightarrow>
     todo (l_workers (fold (load_step u) sched L) ! j) = todo (l_workers L ! j) - count_list sched j"
  by (induction sched arbitrary: L) (auto simp: load_step_todo)

lemma loads_length [simp]: "length (l_workers (fold (load_step u) sched L)) = length (l_workers L)"
  by (induction sched arbitrary: L) auto

lemma count_list_replicate: "count_list (replicate n i) j = (if i = j then n else 0)"
  by (induction n) auto

lemma count_drain:
  assumes "j < length (l_workers L)"
  shows "count_list (drain L) j = length (w_queue (l_workers L ! j)) + 1"
proof -
  have "count_list (concat (map (\<lambda>i. replicate (f i) i) [0..<n])) j = (if j < n then f j else 0)" for f :: "nat \<Rightarrow> nat" and n
    by (induction n) (auto simp: count_list_replicate)
  with assms show ?thesis by (simp only: drain_def if_True)
qed

lemma load_all_done: "\<forall>w \<in> set (l_workers (load_all u sched ws)). w_done w"
proof -
  let ?L = "fold (load_step u) sched \<lparr>l_store = NewStore, l_errs = [], l_workers = ws\<rparr>"
  have "todo (l_workers (fold (load_step u) (drain ?L) ?L) ! j) = 0" if "j < length (l_workers ?L)" for j
    using that unfolding loads_todo [OF that] count_drain [OF that] by (auto simp: todo_def)
  moreover have "todo w = 0 \<longleftrightarrow> w_done w" for w :: "'a worker" by (simp add: todo_def)
  ultimately show ?thesis
    by (auto simp: load_all_def Let_def in_set_conv_nth)
qed

subsection \<open>What the workers leave behind\<close>

definition pending :: "'e worker \<Rightarrow> inserted" where
  "pending w = map (\<lambda>ob. (ob, w_source w)) (w_queue w)"

definition worker_errs :: "'e worker \<Rightarrow> 'e load_error list" where
  "worker_errs w = (case w_err w of None \<Rightarrow> [] | Some e \<Rightarrow> [FileError (w_source w) (w_class w) e])"

definition all_pending :: "'e worker list \<Rightarrow> inserted" where
  "all_pending ws = concat (map pending ws)"

definition load_inv :: "unicode \<Rightarrow> 'e worker list \<Rightarrow> 'e load \<Rightarrow> bool" where
  "load_inv u ws L \<longleftrightarrow>
     length (l_workers L) = length ws \<and>
     (\<forall>i < length ws. worker_errs (l_workers L ! i) = worker_errs (ws ! i)) \<and>
     (\<forall>w \<in> set (l_workers L). w_done w \<longrightarrow> w_queue w = []) \<and>
     (\<exists>ins. l_store L = store_of u ins \<and> mset ins + mset (all_pending (l_workers L)) = mset (all_pending ws)) \<and>
     mset (l_errs L) = sum_list (map (\<lambda>w. if w_done w then mset (worker_errs w) else {#}) (l_workers L))"

lemma store_of_snoc: "store_Insert u ob src (store_of u ins) = store_of u (ins @ [(ob, src)])"
  by (simp add: store_of_def insert_all_def)

lemma sum_list_update_mset:
  "i < length xs \<Longrightarrow> sum_list (map f (xs[i := y])) + f (xs ! i) = sum_list (map f xs) + (f y :: 'a multiset)"
  by (induction xs arbitrary: i) (auto simp: nth_Cons' less_Suc_eq_0_disj ac_simps split: nat.splits)

lemma mset_all_pending: "mset (all_pending ws) = sum_list (map (\<lambda>w. mset (pending w)) ws)"
  by (induction ws) (auto simp: all_pending_def)

lemma load_step_inv:
  assumes "load_inv u ws L"
  shows "load_inv u ws (load_step u i L)"
proof (cases "i < length (l_workers L) \<and> \<not> w_done (l_workers L ! i)")
  case False
  then have "load_step u i L = L" by (auto simp: load_step_def Let_def)
  with assms show ?thesis by simp
next
  case True
  let ?w = "l_workers L ! i" and ?ws = "l_workers L"
  let ?errs = "\<lambda>w. if w_done w then mset (worker_errs w) else {#}"
  have i: "i < length ?ws" "\<not> w_done ?w" using True by auto
  note inv = assms [unfolded load_inv_def]
  obtain ins where ins: "l_store L = store_of u ins" "mset ins + mset (all_pending ?ws) = mset (all_pending ws)"
    using inv by blast
  have keep: "load_inv u ws L'"
    if "l_workers L' = ?ws[i := w']" "worker_errs w' = worker_errs ?w" "w_done w' \<longrightarrow> w_queue w' = []"
      "l_store L' = store_of u ins'" "mset ins' + mset (all_pending (?ws[i := w'])) = mset (all_pending ws)"
      "mset (l_errs L') = sum_list (map ?errs (?ws[i := w']))" for L' w' ins'
    unfolding load_inv_def
  proof (intro conjI)
    show "\<forall>j < length ws. worker_errs (l_workers L' ! j) = worker_errs (ws ! j)"
      using inv i that(1,2) by (simp add: nth_list_update)
    show "\<forall>w \<in> set (l_workers L'). w_done w \<longrightarrow> w_queue w = []"
      using inv that(1,3) by (auto dest!: set_update_subset_insert [THEN subsetD])
    show "\<exists>ins. l_store L' = store_of u ins \<and> mset ins + mset (all_pending (l_workers L')) = mset (all_pending ws)"
      using that(1,4,5) by auto
  qed (use inv that(1,6) in auto)
  show ?thesis
  proof (cases "w_queue ?w")
    case Nil
    let ?w' = "?w\<lparr>w_done := True\<rparr>"
    have step: "load_step u i L = L\<lparr>l_errs := l_errs L @ worker_errs ?w, l_workers := ?ws[i := ?w']\<rparr>"
      using i Nil by (simp add: load_step_def worker_errs_def Let_def)
    have same: "worker_errs ?w' = worker_errs ?w" "pending ?w' = []" "pending ?w = []"
      using Nil by (simp_all add: worker_errs_def pending_def split: option.split)
    have "mset (all_pending (?ws[i := ?w'])) = mset (all_pending ?ws)"
      using sum_list_update_mset [of i ?ws "\<lambda>w. mset (pending w)" ?w'] i same by (simp add: mset_all_pending)
    moreover have "mset (l_errs L @ worker_errs ?w) = sum_list (map ?errs (?ws[i := ?w']))"
      using sum_list_update_mset [of i ?ws ?errs ?w'] i same inv by simp
    ultimately show ?thesis
      using Nil same ins unfolding step by (intro keep [of _ ?w' ins]) simp_all
  next
    case (Cons ob obs)
    let ?w' = "?w\<lparr>w_queue := obs\<rparr>" and ?x = "(ob, w_source ?w)"
    have step: "load_step u i L = L\<lparr>l_store := store_of u (ins @ [?x]), l_workers := ?ws[i := ?w']\<rparr>"
      using i Cons ins(1) by (simp add: load_step_def store_of_snoc Let_def)
    have same: "worker_errs ?w' = worker_errs ?w" "pending ?w = ?x # pending ?w'"
      using Cons by (simp_all add: worker_errs_def pending_def split: option.split)
    have p: "add_mset ?x (mset (all_pending (?ws[i := ?w']))) = mset (all_pending ?ws)"
      using sum_list_update_mset [of i ?ws "\<lambda>w. mset (pending w)" ?w'] i same by (simp add: mset_all_pending)
    have "mset (ins @ [?x]) + mset (all_pending (?ws[i := ?w'])) = mset (all_pending ws)"
      unfolding ins(2) [symmetric] p [symmetric] by simp
    moreover have "mset (l_errs L) = sum_list (map ?errs (?ws[i := ?w']))"
      using sum_list_update_mset [of i ?ws ?errs ?w'] i inv by simp
    ultimately show ?thesis
      using i same unfolding step by (intro keep [of _ ?w' "ins @ [?x]"]) simp_all
  qed
qed

lemma loads_inv: "load_inv u ws L \<Longrightarrow> load_inv u ws (fold (load_step u) sched L)"
  by (induction sched arbitrary: L) (auto intro: load_step_inv)

lemma load_inv_init:
  assumes "\<forall>w \<in> set ws. \<not> w_done w"
  shows "load_inv u ws \<lparr>l_store = NewStore, l_errs = [], l_workers = ws\<rparr>"
proof -
  have "sum_list (map (\<lambda>w. if w_done w then mset (worker_errs w) else {#}) ws) = {#}"
    using assms by (induction ws) auto
  with assms show ?thesis
    by (auto simp: load_inv_def store_of_def insert_all_def intro!: exI [of _ "[]"])
qed

lemma load_all_result:
  assumes "\<forall>w \<in> set ws. \<not> w_done w"
  shows "\<exists>ins. l_store (load_all u sched ws) = store_of u ins \<and> mset ins = mset (all_pending ws)"
    and "mset (l_errs (load_all u sched ws)) = mset (concat (map worker_errs ws))"
proof -
  let ?L = "load_all u sched ws"
  have inv: "load_inv u ws ?L"
    unfolding load_all_def Let_def by (intro loads_inv load_inv_init assms)
  have "\<forall>w \<in> set (l_workers ?L). pending w = []"
    using inv load_all_done [of u sched ws] by (auto simp: load_inv_def pending_def)
  then have "all_pending (l_workers ?L) = []" by (simp add: all_pending_def)
  with inv show "\<exists>ins. l_store ?L = store_of u ins \<and> mset ins = mset (all_pending ws)"
    by (auto simp: load_inv_def)
  have "map (\<lambda>w. if w_done w then mset (worker_errs w) else {#}) (l_workers ?L) = map (\<lambda>w. mset (worker_errs w)) ws"
  proof (rule nth_equalityI)
    show "length (map (\<lambda>w. if w_done w then mset (worker_errs w) else {#}) (l_workers ?L)) =
        length (map (\<lambda>w. mset (worker_errs w)) ws)" using inv by (simp add: load_inv_def)
  next
    fix i assume "i < length (map (\<lambda>w. if w_done w then mset (worker_errs w) else {#}) (l_workers ?L))"
    then have i: "i < length (l_workers ?L)" "i < length ws" using inv by (simp_all add: load_inv_def)
    then have "w_done (l_workers ?L ! i)" using load_all_done [of u sched ws] by simp
    with i inv show "map (\<lambda>w. if w_done w then mset (worker_errs w) else {#}) (l_workers ?L) ! i =
        map (\<lambda>w. mset (worker_errs w)) ws ! i" by (simp add: load_inv_def)
  qed
  moreover have "mset (concat (map worker_errs ws)) = sum_list (map (\<lambda>w. mset (worker_errs w)) ws)"
    by (induction ws) auto
  ultimately show "mset (l_errs ?L) = mset (concat (map worker_errs ws))"
    using inv by (simp add: load_inv_def)
qed

subsection \<open>The reload\<close>

lemma worker_of_fields:
  "pending (worker_of env c r) = map (\<lambda>ob. (ob, sf_Source r)) (fst (parse_file env c r))"
  "worker_errs (worker_of env c r) =
     (case snd (parse_file env c r) of None \<Rightarrow> [] | Some e \<Rightarrow> [FileError (sf_Source r) (sf_Class r) e])"
  "\<not> w_done (worker_of env c r)"
  by (simp_all add: pending_def worker_errs_def worker_of_def Let_def split: prod.split option.split)

definition file_objects :: "'e file_env \<Rightarrow> (nat \<Rightarrow> 'e ctx) \<Rightarrow> SourceFile list \<Rightarrow> inserted" where
  "file_objects env ctx fetched =
     concat (map (\<lambda>(i, r). map (\<lambda>ob. (ob, sf_Source r)) (fst (parse_file env (ctx i) r))) (enumerate 0 fetched))"

definition file_errors :: "'e file_env \<Rightarrow> (nat \<Rightarrow> 'e ctx) \<Rightarrow> SourceFile list \<Rightarrow> 'e load_error list" where
  "file_errors env ctx fetched =
     concat (map (\<lambda>(i, r). case snd (parse_file env (ctx i) r) of None \<Rightarrow> []
       | Some e \<Rightarrow> [FileError (sf_Source r) (sf_Class r) e]) (enumerate 0 fetched))"

lemma workers_of_fields:
  "all_pending (workers_of env ctx fetched) = file_objects env ctx fetched"
  "concat (map worker_errs (workers_of env ctx fetched)) = file_errors env ctx fetched"
  "\<forall>w \<in> set (workers_of env ctx fetched). \<not> w_done w"
  by (auto simp: workers_of_def all_pending_def file_objects_def file_errors_def worker_of_fields comp_def
      case_prod_unfold)

lemma Reload_errs:
  "l_errs (load_all u sched (workers_of env ctx fetched)) = [] \<longleftrightarrow> file_errors env ctx fetched = []"
  using load_all_result(2) [OF workers_of_fields(3), of u sched env ctx fetched]
  by (metis mset_zero_iff workers_of_fields(2))

lemma Reload_cases:
  assumes "forceRebuild \<or> list_ex sf_Changed fetched \<or> IsEmpty m"
  shows "if file_errors env ctx fetched = []
    then \<exists>ins. mset ins = mset (file_objects env ctx fetched) \<and>
           Reload u env ctx sched now fetched forceRebuild m =
             (m\<lparr>m_cur := fold (\<lambda>x. store_Insert u (fst x) (snd x)) ins NewStore, m_lastReload := now\<rparr>, True, None)
    else \<exists>e \<in> set (file_errors env ctx fetched).
           Reload u env ctx sched now fetched forceRebuild m = (m, False, Some e)"
proof (cases "file_errors env ctx fetched = []")
  case True
  obtain ins where "l_store (load_all u sched (workers_of env ctx fetched)) = store_of u ins"
    "mset ins = mset (file_objects env ctx fetched)"
    using load_all_result(1) [OF workers_of_fields(3), of u sched env ctx fetched]
    by (auto simp: workers_of_fields)
  with True assms show ?thesis
    by (auto simp: Reload_def Reload_errs Let_def store_of_def insert_all_def)
next
  case False
  let ?errs = "l_errs (load_all u sched (workers_of env ctx fetched))"
  have "?errs \<noteq> []" using False by (simp add: Reload_errs)
  moreover have "set ?errs = set (file_errors env ctx fetched)"
    using load_all_result(2) [OF workers_of_fields(3), of u sched env ctx fetched]
    by (metis set_mset_mset workers_of_fields(2))
  ultimately have "hd ?errs \<in> set (file_errors env ctx fetched)" by (metis hd_in_set)
  with False assms show ?thesis by (auto simp: Reload_def Reload_errs Let_def)
qed

text \<open>
  C7: a reload is all or nothing, whatever the interleaving of the loading goroutines. If any
  file fails to open, decompress, read or is cancelled, the manager keeps its store and its
  time stamp, and the error reported is one of the errors of the files. Otherwise the new
  store is one that holds exactly the objects of all the files, each under its source, and
  the time stamp is set.
\<close>

theorem reload_atomic:
  assumes "forceRebuild \<or> list_ex sf_Changed fetched \<or> IsEmpty m"
  shows "if file_errors env ctx fetched = []
    then \<exists>ins. mset ins = mset (file_objects env ctx fetched) \<and>
           Reload u env ctx sched now fetched forceRebuild m =
             (m\<lparr>m_cur := fold (\<lambda>x. store_Insert u (fst x) (snd x)) ins NewStore, m_lastReload := now\<rparr>, True, None)
    else \<exists>e \<in> set (file_errors env ctx fetched).
           Reload u env ctx sched now fetched forceRebuild m = (m, False, Some e)"
  using assms by (rule Reload_cases)

text \<open>What a worker delivers when it is not cancelled.\<close>

lemma deliver_collect: "deliver (\<lambda>_. None) (\<lambda>ob obs. (obs @ [ob], None)) n xs ys = (ys @ xs, None)"
  by (induction xs arbitrary: n ys) auto

lemma parseStream_collect:
  "parseStream (\<lambda>_. None) r (\<lambda>ob obs. (obs @ [ob], None)) [] = (parsed_objects r, read_error (snd r))"
  by (simp add: parseStream_deliver deliver_collect)

text \<open>A file system with one small file; opening any other file fails.\<close>

definition one_file_env :: "unit file_env" where
  "one_file_env =
     \<lparr>os_open = (\<lambda>p. if p = ''/c/ripe.db'' then Inr (print_blocks rpsl_example, AtEOF) else Inl ()),
      gunzip = (\<lambda>f. Inr f)\<rparr>"

definition ripe_file :: SourceFile where
  "ripe_file = \<lparr>sf_Source = ''ripe'', sf_Class = [], sf_Path = ''/c/ripe.db'', sf_Changed = True\<rparr>"

lemma one_file_parse:
  "parse_file one_file_env (\<lambda>_. None) ripe_file = (block_objects rpsl_example, None)"
  "snd (parse_file one_file_env (\<lambda>_. None) (ripe_file\<lparr>sf_Path := ''/c/missing''\<rparr>)) = Some ()"
  using parsed_print [OF rpsl_example_ok, where 'e = unit]
  by (simp_all add: parse_file_def Parse_def one_file_env_def ripe_file_def has_suffix_def parseStream_collect
      read_error_def)

theorem reload_atomic_witness:
  "\<exists>e. Reload \<lparr>uni_upper = id, uni_lower = id\<rparr> one_file_env (\<lambda>_ _. None) [1, 0] 5
     [ripe_file, ripe_file\<lparr>sf_Path := ''/c/missing''\<rparr>] False NewManager = (NewManager, False, Some e)"
proof -
  have "file_errors one_file_env (\<lambda>_ _. None) [ripe_file, ripe_file\<lparr>sf_Path := ''/c/missing''\<rparr>] \<noteq> []"
    by (simp add: file_errors_def one_file_parse)
  moreover have "IsEmpty NewManager" by (simp add: IsEmpty_def NewManager_def)
  ultimately show ?thesis
    using reload_atomic [of False "[ripe_file, ripe_file\<lparr>sf_Path := ''/c/missing''\<rparr>]" NewManager one_file_env
        "\<lambda>_ _. None" "\<lparr>uni_upper = id, uni_lower = id\<rparr>" "[1, 0]" 5]
    by (auto split: if_splits)
qed

text \<open>
  C36: the schedule of the loading goroutines does not show in the answers: for two schedules
  that both succeed, every query returns the same objects, possibly in another order, and the
  counters by class and by source are the same.
\<close>

theorem reload_schedule_irrelevant:
  assumes "Reload u env ctx sched now fetched True m = (m1, True, None)"
    and "Reload u env ctx sched' now' fetched True m = (m2, True, None)"
  shows "mset (store_Lookup u (Current m1) q) = mset (store_Lookup u (Current m2) q) \<and>
    gmap_int (Counts (Current m1)) c = gmap_int (Counts (Current m2)) c \<and>
    gmap_int (CountsBySource (Current m1)) c = gmap_int (CountsBySource (Current m2)) c"
proof -
  let ?ws = "workers_of env ctx fetched"
  obtain i1 i2 where s: "l_store (load_all u sched ?ws) = store_of u i1" "l_store (load_all u sched' ?ws) = store_of u i2"
    and eq: "mset i1 = mset i2"
    using load_all_result(1) [OF workers_of_fields(3), of u _ env ctx fetched] by metis
  have cur: "Current m1 = store_of u i1" "Current m2 = store_of u i2"
    using assms s by (auto simp: Reload_def Let_def Current_def split: if_splits)
  have "length (filter P i1) = length (filter P i2)" for P
    using eq by (metis mset_filter size_mset)
  with Lookup_order [OF eq] show ?thesis
    unfolding cur Counts_def CountsBySource_def gmap_int_copy by (simp add: store_of_fields)
qed

theorem reload_schedule_irrelevant_witness:
  "\<exists>m1 m2. Reload \<lparr>uni_upper = id, uni_lower = id\<rparr> one_file_env (\<lambda>_ _. None) [] 5 [ripe_file, ripe_file] True NewManager = (m1, True, None) \<and>
     Reload \<lparr>uni_upper = id, uni_lower = id\<rparr> one_file_env (\<lambda>_ _. None) [1, 1, 0] 6 [ripe_file, ripe_file] True NewManager = (m2, True, None) \<and>
     mset (store_Lookup \<lparr>uni_upper = id, uni_lower = id\<rparr> (Current m1) ''A1-X'') =
     mset (store_Lookup \<lparr>uni_upper = id, uni_lower = id\<rparr> (Current m2) ''A1-X'')"
proof -
  let ?u = "\<lparr>uni_upper = id, uni_lower = id\<rparr>"
  have "file_errors one_file_env (\<lambda>_ _. None) [ripe_file, ripe_file] = []"
    by (simp add: file_errors_def one_file_parse)
  then have "\<exists>m'. Reload ?u one_file_env (\<lambda>_ _. None) s t [ripe_file, ripe_file] True NewManager = (m', True, None)" for s t
    by (simp add: Reload_def Reload_errs)
  then obtain m1 m2 where
    "Reload ?u one_file_env (\<lambda>_ _. None) [] 5 [ripe_file, ripe_file] True NewManager = (m1, True, None)"
    "Reload ?u one_file_env (\<lambda>_ _. None) [1, 1, 0] 6 [ripe_file, ripe_file] True NewManager = (m2, True, None)"
    by blast
  with reload_schedule_irrelevant [OF this, of "''A1-X''"] show ?thesis by blast
qed

text \<open>
  When no fetched file changed and a store is loaded, a reload that is not forced does
  nothing: it parses no file, keeps the manager and reports neither a rebuild nor an error.
\<close>

theorem reload_skips_unchanged:
  assumes "\<not> list_ex sf_Changed fetched" and "\<not> IsEmpty m"
  shows "Reload u env ctx sched now fetched False m = (m, False, None)"
  using assms by (simp add: Reload_def)

theorem reload_skips_unchanged_witness:
  "Reload \<lparr>uni_upper = id, uni_lower = id\<rparr> one_file_env (\<lambda>_ _. None) [] 7 [ripe_file\<lparr>sf_Changed := False\<rparr>] False
     (NewManager\<lparr>m_cur := store_of \<lparr>uni_upper = id, uni_lower = id\<rparr> [(person_example, ''ripe'')]\<rparr>) =
   (NewManager\<lparr>m_cur := store_of \<lparr>uni_upper = id, uni_lower = id\<rparr> [(person_example, ''ripe'')]\<rparr>, False, None)"
  by (rule reload_skips_unchanged) (simp_all add: ripe_file_def IsEmpty_def store_of_def byKey_empty_iff)

end
