(* ===== verification/File_System.thy ===== *)
theory File_System
  imports Go_Strings
begin

section \<open>Paths and the file system\<close>

text \<open>
  The file system is a map from paths to contents and modification times; directories are not
  represented. The lexical functions on paths are those of Go's \<open>path\<close> and \<open>path/filepath\<close> on
  Unix. The downloader, the statistics dumper and the pid file share this theory.
\<close>

record cfile =
  f_data :: string
  f_mtime :: int

type_synonym fs = "(string, cfile) gomap"

text \<open>\<open>path.Base\<close>: the last element of a slash-separated path.\<close>

definition path_Base :: "string \<Rightarrow> string" where
  "path_Base p =
     (if p = [] then ''.''
      else let q = TrimRight p ''/'' in
        let r = (case cut_last_byte (CHR ''/'') q of None \<Rightarrow> q | Some (_, b) \<Rightarrow> b)
        in if r = [] then ''/'' else r)"

text \<open>\<open>filepath.Join\<close> of two elements, with the lexical cleaning of the joined path.\<close>

fun clean_step :: "bool \<Rightarrow> string \<Rightarrow> string list \<Rightarrow> string list" where
  "clean_step rooted e st =
     (if e = [] \<or> e = ''.'' then st
      else if e = ''..'' then
        (if st \<noteq> [] \<and> hd st \<noteq> ''..'' then tl st else if rooted then st else e # st)
      else e # st)"

definition path_Clean :: "string \<Rightarrow> string" where
  "path_Clean p =
     (let rooted = (p \<noteq> [] \<and> hd p = CHR ''/'');
          st = fold (clean_step rooted) (SplitByte (CHR ''/'') p) [];
          out = (if rooted then ''/'' else []) @ Join (rev st) ''/''
      in if out = [] then ''.'' else out)"

definition path_join :: "string \<Rightarrow> string \<Rightarrow> string" where
  "path_join dir nm =
     (if dir \<noteq> [] then path_Clean (dir @ ''/'' @ nm) else if nm \<noteq> [] then path_Clean nm else [])"

text \<open>\<open>filepath.Dir\<close>: all but the last element, cleaned.\<close>

definition path_Dir :: "string \<Rightarrow> string" where
  "path_Dir p = path_Clean (case cut_last_byte (CHR ''/'') p of None \<Rightarrow> [] | Some (a, _) \<Rightarrow> a @ ''/'')"

end
