(* ===== verification/Downloader.thy ===== *)
theory Downloader
  imports Manager File_System
begin

section \<open>Sources and downloads (internal/ripe/source.go, downloader.go)\<close>

text \<open>
  The file system is a map from paths to contents and modification times. The HTTP client, the
  parser of HTTP dates and the outcomes of the operating-system calls that can fail are the
  fields of \<open>dl_env\<close>, a parameter. A fetch replaces its destination by renaming a temporary
  file; the fetches of different files touch different paths, so a fetch is one step, and the
  order in which the concurrent fetches finish is a parameter of \<open>FetchAll\<close>.
\<close>

subsection \<open>Sources\<close>

abbreviation FormatSplit :: string where "FormatSplit \<equiv> ''split''"
abbreviation FormatSingle :: string where "FormatSingle \<equiv> ''single''"

record Source =
  src_Name :: string
  src_Enabled :: bool
  src_Format :: string
  src_URL :: string
  src_DBName :: string
  src_Classes :: "string list"

record FileSpec =
  fs_URL :: string
  fs_LocalName :: string
  fs_Class :: string

datatype source_error =
  MissingURL string | SplitRequiresClasses string | UnknownFormat string string

definition Files :: "Source \<Rightarrow> source_error + FileSpec list" where
  "Files s =
     (if src_Format s = FormatSingle then
        if src_URL s = [] then Inl (MissingURL (src_Name s))
        else let local = path_Base (src_URL s);
                 local' = (if local = [] \<or> local = ''.'' \<or> local = ''/'' then src_Name s @ ''.db.gz'' else local)
             in Inr [\<lparr>fs_URL = src_URL s, fs_LocalName = local', fs_Class = []\<rparr>]
      else if src_Format s = FormatSplit then
        if src_URL s = [] then Inl (MissingURL (src_Name s))
        else if src_Classes s = [] then Inl (SplitRequiresClasses (src_Name s))
        else let nm = (if src_DBName s = [] then src_Name s else src_DBName s);
                 base = TrimRight (src_URL s) ''/''
             in Inr (map (\<lambda>c. let fn = nm @ ''.db.'' @ c @ ''.gz''
                              in \<lparr>fs_URL = base @ ''/'' @ fn, fs_LocalName = fn, fs_Class = c\<rparr>) (src_Classes s))
      else Inl (UnknownFormat (src_Name s) (src_Format s)))"

subsection \<open>One fetch\<close>

record 'e response =
  StatusCode :: nat
  Body :: "string \<times> 'e option"
  LastModified :: string

record 'e dl_env =
  new_request :: "string \<Rightarrow> 'e option"
  client_Do :: "string \<Rightarrow> int option \<Rightarrow> 'e + 'e response"
  create_temp :: "string \<Rightarrow> 'e + string"
  write_close :: "string \<Rightarrow> 'e option"
  rename_err :: "string \<Rightarrow> 'e option"
  remove_err :: "string \<Rightarrow> 'e option"
  chtimes_err :: "string \<Rightarrow> 'e option"
  mkdir_err :: "string \<Rightarrow> 'e option"
  parse_time :: "string \<Rightarrow> int option"
  dl_now :: int

datatype 'e fetch_error =
  OsError 'e | GetError string 'e | GetStatus string nat | WriteError string 'e

text \<open>\<open>cleanup\<close>: the error of \<open>os.Remove\<close> is ignored.\<close>

definition cleanup_tmp :: "'e dl_env \<Rightarrow> string \<Rightarrow> fs \<Rightarrow> fs" where
  "cleanup_tmp env tmpName fs = (if remove_err env tmpName = None then Mapping.delete tmpName fs else fs)"

definition save_body :: "'e dl_env \<Rightarrow> 'e response \<Rightarrow> string \<Rightarrow> fs \<Rightarrow> fs \<times> ('e fetch_error + bool)" where
  "save_body env resp dst fs =
     (case create_temp env dst of
        Inl e \<Rightarrow> (fs, Inl (OsError e))
      | Inr tmpName \<Rightarrow>
          (let fs1 = Mapping.update tmpName \<lparr>f_data = fst (Body resp), f_mtime = dl_now env\<rparr> fs;
               err = (case snd (Body resp) of Some e \<Rightarrow> Some e | None \<Rightarrow> write_close env dst)
           in case err of
                Some e \<Rightarrow> (cleanup_tmp env tmpName fs1, Inl (WriteError dst e))
              | None \<Rightarrow>
                  (let mtime = (if LastModified resp = [] then dl_now env
                                else case parse_time env (LastModified resp) of
                                       None \<Rightarrow> dl_now env
                                     | Some t \<Rightarrow> if chtimes_err env tmpName = None then t else dl_now env);
                       f = \<lparr>f_data = fst (Body resp), f_mtime = mtime\<rparr>;
                       fs2 = Mapping.update tmpName f fs1
                   in case rename_err env dst of
                        Some e \<Rightarrow> (cleanup_tmp env tmpName fs2, Inl (OsError e))
                      | None \<Rightarrow> (Mapping.update dst f (Mapping.delete tmpName fs2), Inr True))))"

definition fetchURL :: "'e dl_env \<Rightarrow> string \<Rightarrow> string \<Rightarrow> fs \<Rightarrow> fs \<times> ('e fetch_error + bool)" where
  "fetchURL env url dst fs =
     (case new_request env url of
        Some e \<Rightarrow> (fs, Inl (OsError e))
      | None \<Rightarrow>
          (case client_Do env url (map_option f_mtime (Mapping.lookup fs dst)) of
             Inl e \<Rightarrow> (fs, Inl (GetError url e))
           | Inr resp \<Rightarrow>
               if StatusCode resp = 304 then (fs, Inr False)
               else if StatusCode resp \<noteq> 200 then (fs, Inl (GetStatus url (StatusCode resp)))
               else save_body env resp dst fs))"

subsection \<open>All fetches\<close>

record plannedFetch =
  pf_src :: string
  pf_dir :: string
  pf_spec :: FileSpec

datatype 'e fetchall_error =
  MkdirCache 'e | Mkdir string 'e | SourceError source_error | FetchError "'e fetch_error"

fun plan_fetches :: "'e dl_env \<Rightarrow> string \<Rightarrow> Source list \<Rightarrow> 'e fetchall_error + plannedFetch list" where
  "plan_fetches env cacheDir [] = Inr []"
| "plan_fetches env cacheDir (s # ss) =
     (if \<not> src_Enabled s then plan_fetches env cacheDir ss
      else case Files s of
             Inl e \<Rightarrow> Inl (SourceError e)
           | Inr files \<Rightarrow>
               (let dir = path_join cacheDir (src_Name s)
                in case mkdir_err env dir of
                     Some e \<Rightarrow> Inl (Mkdir dir e)
                   | None \<Rightarrow>
                       (case plan_fetches env cacheDir ss of
                          Inl e \<Rightarrow> Inl e
                        | Inr ps \<Rightarrow> Inr (map (\<lambda>f. \<lparr>pf_src = src_Name s, pf_dir = dir, pf_spec = f\<rparr>) files @ ps))))"

text \<open>The order in which the goroutines deliver their results: \<open>sched\<close>, and the others after it.\<close>

definition finish_order :: "nat \<Rightarrow> nat list \<Rightarrow> nat list" where
  "finish_order n sched =
     (let xs = remdups (filter (\<lambda>i. i < n) sched) in xs @ filter (\<lambda>i. i \<notin> set xs) [0..<n])"

definition fetch_one :: "'e dl_env \<Rightarrow> plannedFetch \<Rightarrow> fs \<Rightarrow> fs \<times> ('e fetch_error + SourceFile)" where
  "fetch_one env p fs =
     (let dst = path_join (pf_dir p) (fs_LocalName (pf_spec p))
      in case fetchURL env (fs_URL (pf_spec p)) dst fs of
           (fs', Inl e) \<Rightarrow> (fs', Inl e)
         | (fs', Inr changed) \<Rightarrow>
             (fs', Inr \<lparr>sf_Source = pf_src p, sf_Class = fs_Class (pf_spec p), sf_Path = dst, sf_Changed = changed\<rparr>))"

fun fetch_run :: "'e dl_env \<Rightarrow> plannedFetch list \<Rightarrow> fs \<Rightarrow> fs \<times> ('e fetch_error + SourceFile) list" where
  "fetch_run env [] fs = (fs, [])"
| "fetch_run env (p # ps) fs =
     (let (fs1, r) = fetch_one env p fs; (fs2, rs) = fetch_run env ps fs1 in (fs2, r # rs))"

fun collect_results ::
    "('e fetch_error + SourceFile) list \<Rightarrow> SourceFile list \<Rightarrow> 'e fetch_error option \<Rightarrow>
     SourceFile list \<times> 'e fetch_error option" where
  "collect_results [] out firstErr = (out, firstErr)"
| "collect_results (Inl e # rs) out firstErr =
     collect_results rs out (case firstErr of None \<Rightarrow> Some e | Some e0 \<Rightarrow> Some e0)"
| "collect_results (Inr sf # rs) out firstErr = collect_results rs (out @ [sf]) firstErr"

definition FetchAll ::
    "'e dl_env \<Rightarrow> string \<Rightarrow> nat list \<Rightarrow> Source list \<Rightarrow> fs \<Rightarrow> fs \<times> ('e fetchall_error + SourceFile list)" where
  "FetchAll env cacheDir sched sources fs =
     (case mkdir_err env cacheDir of
        Some e \<Rightarrow> (fs, Inl (MkdirCache e))
      | None \<Rightarrow>
          (case plan_fetches env cacheDir sources of
             Inl e \<Rightarrow> (fs, Inl e)
           | Inr plan \<Rightarrow>
               (let (fs', rs) = fetch_run env (map (\<lambda>i. plan ! i) (finish_order (length plan) sched)) fs;
                    (out, firstErr) = collect_results rs [] None
                in case firstErr of
                     Some e \<Rightarrow> if out = [] then (fs', Inl (FetchError e)) else (fs', Inr out)
                   | None \<Rightarrow> (fs', Inr out))))"

subsection \<open>A fetch is atomic\<close>


definition example_env :: "string dl_env" where
  "example_env =
     \<lparr>new_request = (\<lambda>_. None),
      client_Do = (\<lambda>url ims. Inr \<lparr>StatusCode = 200, Body = (''new'', None), LastModified = ''d''\<rparr>),
      create_temp = (\<lambda>dst. Inr (dst @ ''.1.tmp'')), write_close = (\<lambda>_. None), rename_err = (\<lambda>_. None),
      remove_err = (\<lambda>_. None), chtimes_err = (\<lambda>_. None),
      mkdir_err = (\<lambda>_. None), parse_time = (\<lambda>_. Some 7), dl_now = 9\<rparr>"


subsection \<open>Results of a round of fetches\<close>

lemma collect_results_eq:
  "collect_results rs out err =
     (out @ concat (map (\<lambda>r. case r of Inl _ \<Rightarrow> [] | Inr sf \<Rightarrow> [sf]) rs),
      (case err of Some e \<Rightarrow> Some e
       | None \<Rightarrow> (case concat (map (\<lambda>r. case r of Inl e \<Rightarrow> [e] | Inr _ \<Rightarrow> []) rs) of [] \<Rightarrow> None | e # _ \<Rightarrow> Some e)))"
  by (induction rs out err rule: collect_results.induct) (auto split: option.splits)

definition file_id :: "SourceFile \<Rightarrow> string \<times> string \<times> string" where
  "file_id sf = (sf_Source sf, sf_Class sf, sf_Path sf)"

definition plan_id :: "plannedFetch \<Rightarrow> string \<times> string \<times> string" where
  "plan_id p = (pf_src p, fs_Class (pf_spec p), path_join (pf_dir p) (fs_LocalName (pf_spec p)))"

lemma fetch_one_id: "fetch_one env p fs = (fs', Inr sf) \<Longrightarrow> file_id sf = plan_id p"
  by (auto simp: fetch_one_def Let_def file_id_def plan_id_def split: prod.splits sum.splits)

text \<open>The files and the errors among the results.\<close>

definition oks :: "('e + SourceFile) list \<Rightarrow> SourceFile list" where
  "oks rs = concat (map (\<lambda>r. case r of Inl _ \<Rightarrow> [] | Inr sf \<Rightarrow> [sf]) rs)"

definition bads :: "('e + SourceFile) list \<Rightarrow> 'e list" where
  "bads rs = concat (map (\<lambda>r. case r of Inl e \<Rightarrow> [e] | Inr _ \<Rightarrow> []) rs)"

lemma oks_bads:
  "map Inr (oks rs) = filter (\<lambda>r. \<not> isl r) rs" "oks rs = [] \<longleftrightarrow> list_all isl rs" "oks rs = [] \<Longrightarrow> bads rs = [] \<longleftrightarrow> rs = []"
  unfolding oks_def bads_def by (induction rs) (auto split: sum.splits)

lemma fetch_run_ids:
  "fetch_run env ps fs = (fs', rs) \<Longrightarrow>
     length rs = length ps \<and>
     map file_id (oks rs) = map (\<lambda>(p, r). plan_id p) (filter (\<lambda>(p, r). \<not> isl r) (zip ps rs))"
proof (induction ps arbitrary: fs fs' rs)
  case (Cons p ps)
  obtain fs1 r where r: "fetch_one env p fs = (fs1, r)" by fastforce
  obtain fs2 rs1 where run: "fetch_run env ps fs1 = (fs2, rs1)" by fastforce
  have rs: "rs = r # rs1" using Cons.prems r run by simp
  show ?case
    using Cons.IH [OF run] fetch_one_id r unfolding rs by (cases r) (auto simp: oks_def)
qed (simp add: oks_def)

lemma finish_order_perm: "mset (finish_order n sched) = mset [0..<n]"
proof -
  have "distinct (finish_order n sched)" "set (finish_order n sched) = set [0..<n]"
    by (auto simp: finish_order_def Let_def)
  then show ?thesis by (metis distinct_upt set_eq_iff_mset_eq_distinct)
qed

lemma map_plan_perm: "mset (map (\<lambda>i. f (plan ! i)) (finish_order (length plan) sched)) = mset (map f plan)"
proof -
  have "mset (map (\<lambda>i. f (plan ! i)) (finish_order (length plan) sched)) =
      mset (map (\<lambda>i. f (plan ! i)) [0..<length plan])"
    by (simp only: mset_map finish_order_perm)
  also have "map (\<lambda>i. f (plan ! i)) [0..<length plan] = map f plan"
    by (rule nth_equalityI) simp_all
  finally show ?thesis .
qed

text \<open>
  C27: what a round of downloads reports, for any order in which the fetches finish. Every
  planned fetch is made once, in that order; after planning the round fails exactly when the
  plan is not empty and every fetch failed, and then with the error of the first that finished;
  otherwise it returns exactly the files of the fetches that succeeded, in the order in which
  they finished, each with the source, class and cache path of its plan. A failed fetch beside
  a successful one therefore leaves no trace in the result.
\<close>

theorem fetchall_reports:
  assumes "mkdir_err env cacheDir = None" and "plan_fetches env cacheDir sources = Inr plan"
    and "FetchAll env cacheDir sched sources fs = (fs', res)"
  shows "\<exists>ps rs. mset ps = mset plan \<and> fetch_run env ps fs = (fs', rs) \<and> length rs = length plan \<and>
    (isl res \<longleftrightarrow> plan \<noteq> [] \<and> list_all isl rs) \<and>
    (case res of
       Inl err \<Rightarrow> \<exists>e. hd rs = Inl e \<and> err = FetchError e
     | Inr out \<Rightarrow> map Inr out = filter (\<lambda>r. \<not> isl r) rs \<and>
         map file_id out = map (\<lambda>(p, r). plan_id p) (filter (\<lambda>(p, r). \<not> isl r) (zip ps rs)))"
proof -
  define ps where "ps = map (\<lambda>i. plan ! i) (finish_order (length plan) sched)"
  obtain fs1 rs where run: "fetch_run env ps fs = (fs1, rs)" by fastforce
  have perm: "mset ps = mset plan"
    using map_plan_perm [of "\<lambda>p. p" plan sched] by (simp add: ps_def)
  then have len: "length rs = length plan" using fetch_run_ids [OF run] by (metis size_mset)
  have "collect_results rs [] None = (oks rs, case bads rs of [] \<Rightarrow> None | e # _ \<Rightarrow> Some e)"
    by (simp add: collect_results_eq oks_def bads_def)
  then have F: "fs' = fs1" "res = (case bads rs of [] \<Rightarrow> Inr (oks rs) | e # _ \<Rightarrow> if oks rs = [] then Inl (FetchError e) else Inr (oks rs))"
    using assms run by (auto simp: FetchAll_def ps_def split: list.splits if_splits)
  have "isl res \<longleftrightarrow> oks rs = [] \<and> bads rs \<noteq> []" using F(2) by (auto split: list.splits)
  then have isl: "isl res \<longleftrightarrow> plan \<noteq> [] \<and> list_all isl rs"
    using oks_bads [of rs] len by (metis length_0_conv)
  have "case res of
       Inl err \<Rightarrow> \<exists>e. hd rs = Inl e \<and> err = FetchError e
     | Inr out \<Rightarrow> map Inr out = filter (\<lambda>r. \<not> isl r) rs \<and>
         map file_id out = map (\<lambda>(p, r). plan_id p) (filter (\<lambda>(p, r). \<not> isl r) (zip ps rs))"
  proof (cases "isl res")
    case True
    then have failed: "rs \<noteq> []" "list_all isl rs" using isl len by auto
    then obtain e es where e: "rs = Inl e # es" by (cases rs) (auto simp: isl_def)
    have "bads rs = e # bads es" by (simp add: e bads_def)
    then have "res = Inl (FetchError e)" using F(2) oks_bads(2) [of rs] failed(2) by simp
    then show ?thesis by (simp add: e)
  next
    case False
    then have "res = Inr (oks rs)" using F(2) by (auto split: list.splits if_splits)
    then show ?thesis using oks_bads(1) fetch_run_ids [OF run] by simp
  qed
  then show ?thesis using perm run len isl F(1) by blast
qed

definition single_source :: Source where
  "single_source = \<lparr>src_Name = ''arin'', src_Enabled = True, src_Format = FormatSingle, src_URL = ''http://h/arin.db.gz'',
     src_DBName = [], src_Classes = []\<rparr>"

theorem fetchall_reports_witness:
  "\<exists>fs' out. FetchAll example_env ''/c'' [] [single_source] Mapping.empty = (fs', Inr out) \<and> out \<noteq> []"
proof -
  let ?plan = "[\<lparr>pf_src = ''arin'', pf_dir = ''/c/arin'',
    pf_spec = \<lparr>fs_URL = ''http://h/arin.db.gz'', fs_LocalName = ''arin.db.gz'', fs_Class = []\<rparr>\<rparr>]"
  have m: "mkdir_err example_env ''/c'' = None" by (simp add: example_env_def)
  have p: "plan_fetches example_env ''/c'' [single_source] = Inr ?plan" by code_simp
  obtain fs' rs where F: "FetchAll example_env ''/c'' [] [single_source] Mapping.empty = (fs', rs)" by fastforce
  have "\<not> isl (snd (FetchAll example_env ''/c'' [] [single_source] Mapping.empty))" by code_simp
  then obtain out where "rs = Inr out" using F by (cases rs) auto
  from fetchall_reports [OF m p F] obtain xs :: "(string fetch_error + SourceFile) list" where x: "map Inr out = filter (\<lambda>r. \<not> isl r) xs" "isl rs \<longleftrightarrow> list_all isl xs"
    using \<open>rs = Inr out\<close> by (simp only: sum.case list.distinct simp_thms) blast
  then have "\<not> list_all isl xs" using \<open>rs = Inr out\<close> by simp
  then have "filter (\<lambda>r. \<not> isl r) xs \<noteq> []" by (simp add: filter_empty_conv list_all_iff)
  then show ?thesis using F \<open>rs = Inr out\<close> x(1) by auto
qed

text \<open>
  The fetches of a source. A source in split format with classes is fetched as one file per
  class, in order, from the directory of its URL, and two classes share a cache file only if
  they are equal; a source in single format is fetched as its URL under a non-empty local
  name. Every other configuration is refused.
\<close>

theorem files_of_source:
  "case Files s of
     Inr fl \<Rightarrow> src_URL s \<noteq> [] \<and> fl \<noteq> [] \<and>
       (if src_Format s = FormatSplit
        then map fs_Class fl = src_Classes s \<and> (distinct (map fs_LocalName fl) \<longleftrightarrow> distinct (src_Classes s)) \<and>
             list_all (\<lambda>f. fs_URL f = TrimRight (src_URL s) ''/'' @ ''/'' @ fs_LocalName f) fl
        else src_Format s = FormatSingle \<and> (\<exists>nm. nm \<noteq> [] \<and> fl = [\<lparr>fs_URL = src_URL s, fs_LocalName = nm, fs_Class = []\<rparr>]))
   | Inl e \<Rightarrow> src_URL s = [] \<or> src_Format s = FormatSplit \<and> src_Classes s = [] \<or>
       src_Format s \<noteq> FormatSplit \<and> src_Format s \<noteq> FormatSingle"
  by (auto simp: Files_def Let_def comp_def distinct_map inj_on_def list_all_iff)

end
