(* ===== verification/Query.thy ===== *)
theory Query
  imports Manager
begin

section \<open>Queries and answers (internal/server/server.go)\<close>

text \<open>
  The part of the server between the line a client sends and the text it gets back:
  \<open>parseQuery\<close>, \<open>answer\<close>, \<open>pick\<close> and \<open>writeRelated\<close>. The flag letters are ASCII, so the loop
  over the runes of a flag is the loop over its bytes. The string builder is the string built
  so far.
\<close>

subsection \<open>Parsing\<close>

record queryFlags =
  abuseContact :: bool
  primaryOnly :: bool
  exactMatch :: bool
  moreSpecific :: bool
  lessSpecific :: bool

definition no_flags :: queryFlags where
  "no_flags = \<lparr>abuseContact = False, primaryOnly = False, exactMatch = False, moreSpecific = False, lessSpecific = False\<rparr>"

definition set_flag :: "char \<Rightarrow> queryFlags \<Rightarrow> queryFlags" where
  "set_flag r f =
     (if r = CHR ''b'' then f\<lparr>abuseContact := True\<rparr>
      else if r = CHR ''r'' then f\<lparr>primaryOnly := True\<rparr>
      else if r = CHR ''x'' then f\<lparr>exactMatch := True\<rparr>
      else if r = CHR ''m'' \<or> r = CHR ''M'' then f\<lparr>moreSpecific := True\<rparr>
      else if r = CHR ''l'' \<or> r = CHR ''L'' then f\<lparr>lessSpecific := True\<rparr>
      else f)"

fun parse_tokens :: "string list \<Rightarrow> string list \<Rightarrow> queryFlags \<Rightarrow> string list \<times> queryFlags" where
  "parse_tokens [] rest f = (rest, f)"
| "parse_tokens (t # ts) rest f =
     (if \<not> HasPrefix t ''-'' then parse_tokens ts (rest @ [t]) f
      else parse_tokens ts rest (fold set_flag (tl t) f))"

definition parseQuery :: "string \<Rightarrow> string \<times> queryFlags" where
  "parseQuery line0 =
     (let line = TrimSpace (TrimRight line0 [CHR 0x0D, CHR 0x0A]) in
      if line = [] then ([], no_flags)
      else let (rest, f) = parse_tokens (Fields line) [] no_flags in (Join rest '' '', f))"

subsection \<open>Answering\<close>

definition pick :: "string \<Rightarrow> Object list \<Rightarrow> queryFlags \<Rightarrow> Object list" where
  "pick query objs flags =
     (if objs = [] then []
      else if moreSpecific flags then objs
      else if lessSpecific flags then take 1 objs
      else if ParsePrefix query = None \<and> ParseAddr query = None then objs
      else drop (length objs - 1) objs)"

definition write_raw :: "Object \<Rightarrow> string" where
  "write_raw ob = Raw ob @ (if has_suffix (Raw ob) [CHR 0x0A] then [] else [CHR 0x0A])"

fun write_picked :: "nat \<Rightarrow> Object list \<Rightarrow> string" where
  "write_picked i [] = []"
| "write_picked i (ob # obs) = (if i > 0 then [CHR 0x0A] else []) @ write_raw ob @ write_picked (i + 1) obs"

text \<open>The loop of \<open>writeRelated\<close> over the handles of all slots of all objects.\<close>

fun related_loop :: "unicode \<Rightarrow> Store \<Rightarrow> string list \<Rightarrow> string set \<Rightarrow> string \<Rightarrow> nat \<Rightarrow> string \<times> nat" where
  "related_loop u st [] seen b added = (b, added)"
| "related_loop u st (h0 # hs) seen b added =
     (let h = ToUpper u (TrimSpace h0) in
      if h = [] \<or> h \<in> seen then related_loop u st hs seen b added
      else let related = store_Lookup u st h
           in related_loop u st hs (insert h seen)
                (b @ concat (map (\<lambda>r. CHR 0x0A # write_raw r) related)) (added + length related))"

definition writeRelated :: "unicode \<Rightarrow> Store \<Rightarrow> Object list \<Rightarrow> string \<Rightarrow> string \<times> nat" where
  "writeRelated u st objs b =
     related_loop u st (concat (map (\<lambda>ob. concat (map (\<lambda>slot. Handles ob ! slot) [0..<4])) objs)) {} b 0"

definition banner :: string where
  "banner = ''% This output is provided by whoisd, sourced from RIPE NCC.'' @ [CHR 0x0A] @
     ''% Use of this data is subject to the RIPE Database Terms and Conditions.'' @ [CHR 0x0A, CHR 0x0A]"

definition no_entries :: "string \<Rightarrow> string" where
  "no_entries query = ''% No entries found for the selected source(s).'' @ [CHR 0x0A] @ ''% Query: '' @ query @ [CHR 0x0A]"

definition answer :: "unicode \<Rightarrow> Manager \<Rightarrow> string \<Rightarrow> queryFlags \<Rightarrow> string \<times> nat" where
  "answer u m query flags =
     (let store = Current m; objs = store_Lookup u store query in
      if objs = [] then (no_entries query, 0)
      else let picked = pick query objs flags;
               b = banner @ write_picked 0 picked;
               n = length picked
           in if \<not> primaryOnly flags then
                (let (b', k) = writeRelated u store picked b in (b', n + k))
              else (b, n))"

end
