(* ===== verification/Acl.thy ===== *)
theory Acl
  imports Path_Trie
begin

section \<open>The access-control tree (internal/acl/bert.go)\<close>

text \<open>
  \<open>BERT\<close> is a binary trie over 128-bit addresses with an action per node. The loops over the
  bit index are recursions over the sequence of branches (\<open>bit_path\<close>) the loop computes; a
  node is replaced together with the nodes above it, as the program reaches it through its
  parent only.
\<close>

datatype action = ActionNone | ActionAllow | ActionDeny

definition action_String :: "action \<Rightarrow> string" where
  "action_String a = (case a of ActionAllow \<Rightarrow> ''allow'' | ActionDeny \<Rightarrow> ''deny'' | ActionNone \<Rightarrow> ''none'')"

datatype node =
  Node (node_child0: "node option") (node_child1: "node option")
       (node_action: action) (node_depth: "8 word")

record BERT =
  bert_root :: node
  defaultAction :: action

datatype acl_error = InvalidPrefix prefix | ParseError string

definition new_node :: node where
  "new_node = Node None None ActionNone 0"

definition node_child :: "node \<Rightarrow> bool \<Rightarrow> node option" where
  "node_child n b = (if b then node_child1 n else node_child0 n)"

definition node_set_child :: "node \<Rightarrow> bool \<Rightarrow> node \<Rightarrow> node" where
  "node_set_child n b c =
     (if b then Node (node_child0 n) (Some c) (node_action n) (node_depth n)
      else Node (Some c) (node_child1 n) (node_action n) (node_depth n))"

definition bert_New :: "action \<Rightarrow> BERT" where
  "bert_New def = \<lparr>bert_root = new_node, defaultAction = def\<rparr>"

definition canonicalBits :: "prefix \<Rightarrow> bytes \<times> 8 word" where
  "canonicalBits p =
     (let a = paddr (Masked p)
      in if Is4 a then (As16 (AddrFrom16 (As16 a)), word_of_int (pbits p) + 96)
         else (As16 a, word_of_int (pbits p)))"

definition canonicalAddrBits :: "addr \<Rightarrow> bytes" where
  "canonicalAddrBits a = (if Is4 a then As16 (AddrFrom16 (As16 a)) else As16 a)"

fun node_insert :: "bool list \<Rightarrow> action \<times> 8 word \<Rightarrow> node \<Rightarrow> node" where
  "node_insert [] (act, depth) n = Node (node_child0 n) (node_child1 n) act depth"
| "node_insert (b # bs) x n =
     node_set_child n b
       (node_insert bs x (case node_child n b of None \<Rightarrow> new_node | Some c \<Rightarrow> c))"

definition bert_Insert :: "BERT \<Rightarrow> prefix \<Rightarrow> action \<Rightarrow> acl_error + BERT" where
  "bert_Insert b p act =
     (if \<not> prefix_valid p then Inl (InvalidPrefix p)
      else let (bits, depth) = canonicalBits p
           in Inr (b\<lparr>bert_root := node_insert (bit_path bits (unat depth)) (act, depth) (bert_root b)\<rparr>))"

fun match_walk :: "bool list \<Rightarrow> node \<Rightarrow> action \<Rightarrow> action" where
  "match_walk [] n best = best"
| "match_walk (b # bs) n best =
     (case node_child n b of
        None \<Rightarrow> best
      | Some c \<Rightarrow> match_walk bs c (if node_action c \<noteq> ActionNone then node_action c else best))"

definition MatchExplicit :: "BERT \<Rightarrow> addr \<Rightarrow> action \<times> bool" where
  "MatchExplicit b a =
     (if \<not> IsValid a then (defaultAction b, False)
      else let n = bert_root b;
               best = (if node_action n \<noteq> ActionNone then node_action n else ActionNone);
               best' = match_walk (bit_path (canonicalAddrBits a) 128) n best
           in if best' = ActionNone then (defaultAction b, False) else (best', True))"

definition bert_Match :: "BERT \<Rightarrow> addr \<Rightarrow> action" where
  "bert_Match b a = fst (MatchExplicit b a)"

definition MatchString :: "BERT \<Rightarrow> string \<Rightarrow> action" where
  "MatchString b addr =
     (let addr1 = TrimPrefix addr ''['';
          addr2 = (case cut_last_byte (CHR '']'') addr1 of None \<Rightarrow> addr1 | Some (s, _) \<Rightarrow> s)
      in case ParseAddrPort_Addr addr2 of
           Some a \<Rightarrow> bert_Match b a
         | None \<Rightarrow> (case ParseAddr addr2 of
                     None \<Rightarrow> defaultAction b
                   | Some a \<Rightarrow> bert_Match b a))"

definition parse_cidr :: "string \<Rightarrow> prefix option" where
  "parse_cidr c =
     (case ParsePrefix c of
        Some p \<Rightarrow> Some p
      | None \<Rightarrow> (case ParseAddr c of
                  None \<Rightarrow> None
                | Some a \<Rightarrow> Some (PrefixFrom a (int (BitLen a)))))"

fun LoadCIDRs :: "BERT \<Rightarrow> string list \<Rightarrow> action \<Rightarrow> acl_error + BERT" where
  "LoadCIDRs b [] act = Inr b"
| "LoadCIDRs b (c # cs) act =
     (case parse_cidr c of
        None \<Rightarrow> Inl (ParseError c)
      | Some p \<Rightarrow>
          (case bert_Insert b p act of
             Inl e \<Rightarrow> Inl e
           | Inr b' \<Rightarrow> LoadCIDRs b' cs act))"

text \<open>\<open>net.IPMask.Size\<close> (the number of leading ones of a canonical mask, else 0) and its caller.\<close>

definition mask_bits :: "bytes \<Rightarrow> bool list" where
  "mask_bits m = concat (map (\<lambda>b. map (\<lambda>j. bit b (7 - j)) [0..<8]) m)"

definition mask_size :: "bytes \<Rightarrow> nat" where
  "mask_size m =
     (let bs = mask_bits m; n = length (takeWhile id bs)
      in if list_all Not (drop n bs) then n else 0)"

definition CIDRFromIPNet :: "bytes \<Rightarrow> bytes \<Rightarrow> prefix option" where
  "CIDRFromIPNet ip m =
     (case AddrFromSlice ip of
        None \<Rightarrow> None
      | Some a \<Rightarrow> Some (PrefixFrom (Unmap a) (int (mask_size m))))"

end
