(* ===== verification/Acl_Props.thy ===== *)
theory Acl_Props
  imports Acl
begin

section \<open>Properties of the access-control tree\<close>

text \<open>
  The tree is an instance of \<open>bit_trie\<close>; its match is the longest-prefix match over the
  inserted rules (\<open>lpm\<close>): of the rules that cover the address, those of the greatest length
  count, and of these the one inserted last.
\<close>

lemmas node_defs = node_child_def node_set_child_def new_node_def

interpretation bert: bit_trie node_child "\<lambda>n. (node_action n, node_depth n)" new_node node_insert "\<lambda>x _. x"
  by unfold_locales (auto simp: node_defs)

subsection \<open>Longest-prefix match as a specification\<close>

definition lpm :: "(prefix \<times> action) list \<Rightarrow> addr \<Rightarrow> action option" where
  "lpm rs a =
     (let ms = filter (\<lambda>r. covers (fst r) a) rs
      in if ms = [] then None else Some (snd (last (sort_key (\<lambda>r. depth128 (fst r)) ms))))"

fun Insert_all :: "BERT \<Rightarrow> (prefix \<times> action) list \<Rightarrow> acl_error + BERT" where
  "Insert_all b [] = Inr b"
| "Insert_all b ((p, act) # rs) =
     (case bert_Insert b p act of Inl e \<Rightarrow> Inl e | Inr b' \<Rightarrow> Insert_all b' rs)"

definition rule_ok :: "prefix \<times> action \<Rightarrow> bool" where
  "rule_ok r \<longleftrightarrow> prefix_wf (fst r) \<and> prefix_valid (fst r) \<and> snd r \<noteq> ActionNone"

subsection \<open>From bytes to paths\<close>

lemma canonicalAddrBits_path [simp]: "bit_path (canonicalAddrBits a) 128 = addr_path a"
  by (simp add: canonicalAddrBits_def addr_path_def As16_def AddrFrom16_def bit_path_bytes_of)

lemma canonicalBits_depth:
  assumes "prefix_wf p" "prefix_valid p"
  shows "unat (snd (canonicalBits p)) = depth128 p"
proof (cases p rule: Masked.cases)
  case (2 v b)
  then obtain n where "b = int n" "n \<le> 32"
    using assms by (auto simp: prefix_valid_def intro: that [of "nat b"])
  with 2 show ?thesis
    by (simp add: canonicalBits_def PrefixFrom_def unat_word_ariths unsigned_of_nat take_bit_nat_eq_self)
next
  case (3 w z b)
  then obtain n where "b = int n" "n \<le> 128"
    using assms by (auto simp: prefix_valid_def intro: that [of "nat b"])
  with 3 show ?thesis
    by (simp add: canonicalBits_def PrefixFrom_def unsigned_of_nat take_bit_nat_eq_self)
qed (use assms in \<open>auto simp: prefix_valid_def\<close>)

lemma canonicalBits_path:
  assumes "prefix_wf p" "prefix_valid p"
  shows "bit_path (fst (canonicalBits p)) (unat (snd (canonicalBits p))) = prefix_path p"
proof -
  have "fst (canonicalBits p) = bytes_of (addr128 (paddr (Masked p)))"
    by (simp add: canonicalBits_def Let_def As16_def AddrFrom16_def)
  then have "bit_path (fst (canonicalBits p)) (depth128 p) = prefix_path (Masked p)"
    using assms by (simp add: prefix_path_def depth128_Masked bit_path_bytes_of depth128_le)
  with assms show ?thesis by (simp add: canonicalBits_depth prefix_path_Masked)
qed

lemma bert_Insert_root:
  assumes "prefix_wf p" "prefix_valid p"
  shows "bert_Insert b p act =
    Inr (b\<lparr>bert_root := node_insert (prefix_path p) (act, of_nat (depth128 p)) (bert_root b)\<rparr>)"
proof -
  have "snd (canonicalBits p) = of_nat (depth128 p)"
    by (simp flip: canonicalBits_depth [OF assms])
  with assms canonicalBits_path [OF assms] show ?thesis
    by (auto simp: bert_Insert_def split: prod.splits)
qed

lemma Insert_all_root:
  assumes "\<forall>r \<in> set rs. rule_ok r"
  shows "Insert_all b rs = Inr (b\<lparr>bert_root :=
     fold (\<lambda>r. node_insert (prefix_path (fst r)) (snd r, of_nat (depth128 (fst r)))) rs (bert_root b)\<rparr>)"
  using assms
proof (induction rs arbitrary: b)
  case (Cons r rs)
  then show ?case by (cases r) (simp add: rule_ok_def bert_Insert_root)
qed simp

subsection \<open>The action found along a path\<close>

definition better :: "action \<Rightarrow> action \<Rightarrow> action" where
  "better act best = (if act \<noteq> ActionNone then act else best)"

lemma better_None [simp]: "better ActionNone = id"
  by (auto simp: better_def)

lemma match_walk_fold:
  "match_walk p n (better (node_action n) best) = fold (\<lambda>v. better (fst v)) (bert.path_vals n p) best"
proof (induction p arbitrary: n best)
  case (Cons b bs)
  then show ?case
    by (simp add: better_def [symmetric] split: option.splits)
qed simp

lemma MatchExplicit_fold:
  assumes "IsValid a"
  shows "MatchExplicit b a =
    (let best = fold (\<lambda>v. better (fst v)) (map (bert.val_at (bert_root b)) (prefixes (addr_path a))) ActionNone
     in if best = ActionNone then (defaultAction b, False) else (best, True))"
proof -
  obtain k where k: "map (bert.val_at (bert_root b)) (prefixes (addr_path a)) =
      bert.path_vals (bert_root b) (addr_path a) @ replicate k (node_action new_node, node_depth new_node)"
    using bert.map_val_at_prefixes by blast
  show ?thesis
    using assms unfolding MatchExplicit_def canonicalAddrBits_path k better_def [symmetric]
    by (simp add: match_walk_fold new_node_def)
qed

lemma fold_better_last:
  assumes "\<forall>r \<in> set rs. snd r \<noteq> ActionNone"
  shows "fold (\<lambda>v. better (fst v))
       (map (\<lambda>p. fold (\<lambda>x _. (snd x, f x)) (filter (\<lambda>x. key x = p) rs) (ActionNone, d)) ps) best =
     (let ms = concat (map (\<lambda>p. filter (\<lambda>x. key x = p) rs) ps) in if ms = [] then best else snd (last ms))"
proof (induction ps arbitrary: best)
  case (Cons p ps)
  let ?xs = "filter (\<lambda>x. key x = p) rs"
  have "fold (\<lambda>x _. (snd x, f x)) xs v = (if xs = [] then v else (snd (last xs), f (last xs)))" for xs v
    by (induction xs arbitrary: v) auto
  moreover have "?xs \<noteq> [] \<Longrightarrow> snd (last ?xs) \<noteq> ActionNone"
    using assms last_in_set [of ?xs] by auto
  ultimately have "better (fst (fold (\<lambda>x _. (snd x, f x)) ?xs (ActionNone, d))) best =
      (if ?xs = [] then best else snd (last ?xs))"
    by (simp add: better_def)
  then show ?case by (simp add: Cons.IH Let_def)
qed simp

lemma MatchExplicit_lpm:
  assumes "\<forall>r \<in> set rs. rule_ok r" and "IsValid a"
  shows "\<exists>b. Insert_all (bert_New def) rs = Inr b \<and>
    MatchExplicit b a = (case lpm rs a of None \<Rightarrow> (def, False) | Some act \<Rightarrow> (act, True))"
proof -
  define b where "b = (bert_New def)\<lparr>bert_root :=
     fold (\<lambda>r. node_insert (prefix_path (fst r)) (snd r, of_nat (depth128 (fst r)))) rs new_node\<rparr>"
  let ?ms = "filter (\<lambda>r. covers (fst r) a) rs"
  have none: "\<forall>r \<in> set rs. snd r \<noteq> ActionNone" using assms(1) by (auto simp: rule_ok_def)
  have "filter (\<lambda>r. prefix (prefix_path (fst r)) (addr_path a)) rs = ?ms"
    using assms(1) by (intro filter_cong) (auto simp: rule_ok_def prefix_path_covers)
  then have sorted: "concat (map (\<lambda>p. filter (\<lambda>r. prefix_path (fst r) = p) rs) (prefixes (addr_path a))) =
      sort_key (\<lambda>r. depth128 (fst r)) ?ms"
    by (simp add: concat_prefixes_sort)
  have vals: "map (bert.val_at (bert_root b)) (prefixes (addr_path a)) =
      map (\<lambda>p. fold (\<lambda>r _. (snd r, of_nat (depth128 (fst r)))) (filter (\<lambda>r. prefix_path (fst r) = p) rs) (ActionNone, 0))
        (prefixes (addr_path a))"
    by (simp add: b_def bert.val_at_fold_put [where key = "\<lambda>r. prefix_path (fst r)"] bert.val_at_fresh)
      (simp add: new_node_def)
  have empty: "sort_key (\<lambda>r. depth128 (fst r)) ?ms = [] \<longleftrightarrow> ?ms = []"
    by (metis length_0_conv length_sort)
  have "fold (\<lambda>v. better (fst v)) (map (bert.val_at (bert_root b)) (prefixes (addr_path a))) ActionNone =
      (if ?ms = [] then ActionNone else snd (last (sort_key (\<lambda>r. depth128 (fst r)) ?ms)))"
    unfolding vals fold_better_last [OF none] sorted Let_def empty ..
  moreover have "?ms \<noteq> [] \<Longrightarrow> snd (last (sort_key (\<lambda>r. depth128 (fst r)) ?ms)) \<noteq> ActionNone"
    using none last_in_set [of "sort_key (\<lambda>r. depth128 (fst r)) ?ms"] empty by auto
  ultimately have "MatchExplicit b a = (case lpm rs a of None \<Rightarrow> (def, False) | Some act \<Rightarrow> (act, True))"
    using assms(2) by (simp add: MatchExplicit_fold lpm_def Let_def b_def bert_New_def)
  moreover have "Insert_all (bert_New def) rs = Inr b"
    using assms(1) by (simp add: Insert_all_root b_def bert_New_def)
  ultimately show ?thesis by blast
qed

text \<open>
  C1: after inserting a sequence of valid rules into an empty tree, \<open>MatchExplicit\<close> returns
  the action of the longest prefix that covers the address (the latest rule among equal
  prefixes) and reports it as explicit; when no rule covers the address it returns the
  default action and reports it as not explicit.
\<close>

theorem match_is_longest_prefix:
  assumes "\<forall>r \<in> set rs. rule_ok r" and "IsValid a"
  shows "\<exists>b. Insert_all (bert_New def) rs = Inr b \<and>
    MatchExplicit b a = (case lpm rs a of None \<Rightarrow> (def, False) | Some act \<Rightarrow> (act, True))"
  using assms by (rule MatchExplicit_lpm)

text \<open>
  The test of the package, as a witness: default deny, \<open>10.0.0.0/8\<close> allowed, \<open>10.1.2.0/24\<close>
  denied, queried at \<open>10.5.5.5\<close>.
\<close>

definition acl_example :: "(prefix \<times> action) list" where
  "acl_example = [(Prefix (V4 0x0A000000) 8, ActionAllow), (Prefix (V4 0x0A010200) 24, ActionDeny)]"

lemma acl_example_ok: "\<forall>r \<in> set acl_example. rule_ok r"
  by (simp add: acl_example_def rule_ok_def prefix_valid_def)

lemma acl_example_lpm: "lpm acl_example (V4 0x0A050505) = Some ActionAllow"
  by code_simp

theorem match_is_longest_prefix_witness:
  "\<exists>b. Insert_all (bert_New ActionDeny) acl_example = Inr b \<and>
     MatchExplicit b (V4 0x0A050505) = (ActionAllow, True)"
  using match_is_longest_prefix [OF acl_example_ok, of "V4 0x0A050505" ActionDeny]
  by (simp add: acl_example_lpm IsValid_def)

end
