(* ===== verification/Netip_String.thy ===== *)
theory Netip_String
  imports Netip_Bits
begin

section \<open>Textual form of addresses and prefixes\<close>

text \<open>
  \<open>Addr.String\<close> and \<open>Prefix.String\<close> of Go's \<open>net/netip\<close>: dotted decimal for IPv4, and for IPv6
  lower-case hexadecimal groups in which the first longest run of at least two zero groups is
  written as a double colon.
\<close>

definition hex_char :: "nat \<Rightarrow> char" where
  "hex_char d = (if d < 10 then char_of (48 + d) else char_of (87 + d))"

fun hex_str :: "nat \<Rightarrow> string" where
  "hex_str n = (if n < 16 then [hex_char n] else hex_str (n div 16) @ [hex_char (n mod 16)])"

declare hex_str.simps [simp del]

definition v6_group :: "128 word \<Rightarrow> nat \<Rightarrow> nat" where
  "v6_group w i = unat (drop_bit (112 - 16 * i) w AND mask 16)"

definition groups :: "128 word \<Rightarrow> nat list" where
  "groups w = map (v6_group w) [0..<8]"

text \<open>The first longest run of zeros: its start and end, \<open>(8, 8)\<close> when no run has two groups.\<close>

definition zero_run :: "nat list \<Rightarrow> nat \<times> nat" where
  "zero_run gs =
     fold (\<lambda>i (zs, ze).
         let l = length (takeWhile (\<lambda>g. g = 0) (drop i gs))
         in if 2 \<le> l \<and> ze - zs < l then (i, i + l) else (zs, ze)) [0..<8] (8, 8)"

definition string6 :: "nat list \<Rightarrow> string" where
  "string6 gs =
     (let (zs, ze) = zero_run gs
      in if zs < 8
         then Join (map hex_str (take zs gs)) '':'' @ ''::'' @ Join (map hex_str (drop ze gs)) '':''
         else Join (map hex_str gs) '':'')"

definition string4 :: "32 word \<Rightarrow> string" where
  "string4 v = Join (map (\<lambda>k. nat_digits (unat (drop_bit (24 - 8 * k) v AND mask 8))) [0..<4]) ''.''"

definition zone_suffix :: "string \<Rightarrow> string" where
  "zone_suffix z = (if z = [] then [] else ''%'' @ z)"

fun Addr_String :: "addr \<Rightarrow> string" where
  "Addr_String NoAddr = ''invalid IP''"
| "Addr_String (V4 v) = string4 v"
| "Addr_String (V6 w z) =
     (if Is4In6 (V6 w z) then ''::ffff:'' @ string4 (ucast w) @ zone_suffix z
      else string6 (groups w) @ zone_suffix z)"

definition Prefix_String :: "prefix \<Rightarrow> string" where
  "Prefix_String p =
     (if \<not> prefix_valid p then ''invalid Prefix''
      else Addr_String (paddr p) @ ''/'' @ Itoa (pbits p))"

subsection \<open>The textual form determines the address\<close>

lemma hex_char_val: "d < 16 \<Longrightarrow> hex_val (hex_char d) = Some d"
proof -
  assume d: "d < 16"
  show ?thesis
  proof (cases "d < 10")
    case True
    then have "byte (hex_char d) = 48 + d" by (simp add: hex_char_def)
    with True show ?thesis by (simp add: hex_val_def)
  next
    case False
    with d have "byte (hex_char d) = 87 + d" by (simp add: hex_char_def)
    with False d show ?thesis by (simp add: hex_val_def)
  qed
qed

lemma hex_char_ne: "d < 16 \<Longrightarrow> hex_char d \<noteq> CHR '':'' \<and> hex_char d \<noteq> CHR ''.'' \<and> hex_char d \<noteq> CHR ''/''"
  using hex_char_val [of d] by (auto simp: hex_val_def)

lemma hex_str_ne [simp]: "hex_str n \<noteq> []"
  by (subst hex_str.simps) simp

lemma hex_str_chars: "set (hex_str n) \<subseteq> hex_char ` {..<16}"
proof (induction n rule: hex_str.induct)
  case (1 n)
  have "hex_char (n mod 16) \<in> hex_char ` {..<16}" by (rule imageI) simp
  with 1 show ?case by (subst hex_str.simps) auto
qed

lemma hex_str_no: "CHR '':'' \<notin> set (hex_str n)" "CHR ''.'' \<notin> set (hex_str n)" "CHR ''/'' \<notin> set (hex_str n)"
  using hex_str_chars [of n] hex_char_ne by fastforce+

lemma hex_str_inject: "hex_str m = hex_str n \<longleftrightarrow> m = n"
proof -
  define val where "val = foldl (\<lambda>a c. 16 * a + (case hex_val c of None \<Rightarrow> 0 | Some d \<Rightarrow> d)) (0 :: nat)"
  have "val (hex_str n) = n" for n
  proof (induction n rule: hex_str.induct)
    case (1 n)
    show ?case
    proof (cases "n < 16")
      case True
      then show ?thesis by (subst hex_str.simps) (simp add: val_def hex_char_val)
    next
      case False
      have "val (s @ [c]) = 16 * val s + (case hex_val c of None \<Rightarrow> 0 | Some d \<Rightarrow> d)" for s c
        by (simp add: val_def)
      with False 1 hex_char_val [of "n mod 16"] show ?thesis by (subst hex_str.simps) simp
    qed
  qed
  then show ?thesis by metis
qed

text \<open>Joined groups: the separator is a colon, and no group is empty.\<close>

abbreviation join_hex :: "nat list \<Rightarrow> string" where
  "join_hex gs \<equiv> Join (map hex_str gs) '':''"

lemma join_hex_inject: "gs \<noteq> [] \<Longrightarrow> hs \<noteq> [] \<Longrightarrow> join_hex gs = join_hex hs \<longleftrightarrow> gs = hs"
proof
  assume "gs \<noteq> []" "hs \<noteq> []" "join_hex gs = join_hex hs"
  moreover have "gs \<noteq> [] \<Longrightarrow> SplitByte (CHR '':'') (join_hex gs) = map hex_str gs" for gs
    by (rule SplitByte_Join) (auto simp: hex_str_no)
  ultimately have "map hex_str gs = map hex_str hs" by metis
  then show "gs = hs" by (simp add: inj_map_eq_map inj_def hex_str_inject)
qed simp

lemma join_hex_Nil_iff: "join_hex gs = [] \<longleftrightarrow> gs = []"
  using Join_nonempty [of "map hex_str gs" "'':''"] by (cases "gs = []") auto

lemma join_hex_inject_all: "join_hex gs = join_hex hs \<longleftrightarrow> gs = hs"
  using join_hex_inject [of gs hs] join_hex_Nil_iff [of gs] join_hex_Nil_iff [of hs]
  by (cases "gs = []"; cases "hs = []") auto

text \<open>The first double colon of a string.\<close>

fun cut_colons :: "string \<Rightarrow> (string \<times> string) option" where
  "cut_colons (x # y # s) =
     (if x = CHR '':'' \<and> y = CHR '':'' then Some ([], s)
      else map_option (\<lambda>(a, b). (x # a, b)) (cut_colons (y # s)))"
| "cut_colons _ = None"

lemma cut_colons_plain:
  "x \<noteq> [] \<Longrightarrow> CHR '':'' \<notin> set x \<Longrightarrow> cut_colons (x @ CHR '':'' # CHR '':'' # s) = Some (x, s)"
  by (induction x rule: induct_list012) auto

lemma cut_colons_none: "CHR '':'' \<notin> set x \<Longrightarrow> cut_colons x = None"
  by (induction x rule: cut_colons.induct) auto

lemma cut_colons_skip:
  "x \<noteq> [] \<Longrightarrow> CHR '':'' \<notin> set x \<Longrightarrow> t \<noteq> [] \<Longrightarrow> hd t \<noteq> CHR '':'' \<Longrightarrow>
     cut_colons (x @ CHR '':'' # t) = map_option (\<lambda>(a, b). (x @ CHR '':'' # a, b)) (cut_colons t)"
proof (induction x rule: induct_list012)
  case (2 x)
  then obtain z zs where "t = z # zs" by (cases t) auto
  with 2 show ?case by (auto simp: option.map_comp comp_def case_prod_beta)
next
  case (3 x y zs)
  then show ?case by (auto simp: option.map_comp comp_def case_prod_beta)
qed simp

lemma join_hex_hd: "gs \<noteq> [] \<Longrightarrow> hd (join_hex gs @ s) \<noteq> CHR '':'' \<and> join_hex gs @ s \<noteq> []"
proof -
  assume "gs \<noteq> []"
  then obtain g hs where g: "gs = g # hs" by (cases gs) auto
  have "hd (hex_str g) \<noteq> CHR '':''" using hex_str_no(1) [of g] hd_in_set [OF hex_str_ne, of g] by metis
  with g show ?thesis by (cases hs) auto
qed

lemma cut_join:
  "cut_colons (join_hex gs @ '':'' @ '':'' @ s) = Some (join_hex gs, s)" if "gs \<noteq> []"
  using that
proof (induction gs rule: induct_list012)
  case (2 g)
  then show ?case using cut_colons_plain [of "hex_str g" s] hex_str_no(1) [of g] by simp
next
  case (3 g h gs)
  have "hd (join_hex (h # gs) @ '':'' @ '':'' @ s) \<noteq> CHR '':''" "join_hex (h # gs) @ '':'' @ '':'' @ s \<noteq> []"
    using join_hex_hd [of "h # gs"] by auto
  with 3 cut_colons_skip [of "hex_str g"] hex_str_no(1) [of g] show ?case by simp
qed simp

lemma cut_join_none: "cut_colons (join_hex gs) = None"
proof (induction gs rule: induct_list012)
  case (2 g)
  then show ?case using cut_colons_none [of "hex_str g"] hex_str_no(1) [of g] by simp
next
  case (3 g h gs)
  have "hd (join_hex (h # gs)) \<noteq> CHR '':''" "join_hex (h # gs) \<noteq> []" using join_hex_hd [of "h # gs" "[]"] by auto
  with 3 cut_colons_skip [of "hex_str g" "join_hex (h # gs)"] hex_str_no(1) [of g] show ?case by simp
qed simp

lemma cut_double: "cut_colons (join_hex gs @ ''::'' @ s) = Some (join_hex gs, s)"
  using cut_join [of gs s] by (cases "gs = []") auto

text \<open>A run of zeros between \<open>zs\<close> and \<open>ze\<close> can be filled in again.\<close>

lemma zero_run_spec:
  assumes "length gs = 8" "zero_run gs = (zs, ze)" "zs < 8"
  shows "zs < ze \<and> ze \<le> 8 \<and> gs = take zs gs @ replicate (ze - zs) 0 @ drop ze gs"
proof -
  let ?ok = "\<lambda>(zs, ze). zs < 8 \<longrightarrow> zs < ze \<and> ze \<le> 8 \<and> gs = take zs gs @ replicate (ze - zs) 0 @ drop ze gs"
  have run: "?ok (i, i + length (takeWhile (\<lambda>g. g = 0) (drop i gs)))"
    if "i < 8" "2 \<le> length (takeWhile (\<lambda>g. g = 0) (drop i gs))" for i
  proof -
    let ?t = "takeWhile (\<lambda>g. g = 0) (drop i gs)"
    have "?t = replicate (length ?t) 0"
      by (rule replicate_eqI) (auto dest: set_takeWhileD)
    moreover have "drop i gs = ?t @ dropWhile (\<lambda>g. g = 0) (drop i gs)" by simp
    moreover have "dropWhile (\<lambda>g. g = 0) (drop i gs) = drop (i + length ?t) gs"
      by (metis add.commute drop_drop dropWhile_eq_drop)
    moreover have "length ?t \<le> 8 - i" using length_takeWhile_le [of "\<lambda>g. g = 0" "drop i gs"] assms(1) by simp
    ultimately show ?thesis using that by auto
  qed
  have "?ok (fold (\<lambda>i (zs, ze). let l = length (takeWhile (\<lambda>g. g = 0) (drop i gs))
      in if 2 \<le> l \<and> ze - zs < l then (i, i + l) else (zs, ze)) is st)"
    if "?ok st" "\<forall>i \<in> set is. i < 8" for "is" st
    using that
  proof (induction "is" arbitrary: st)
    case (Cons i js)
    obtain a b where st: "st = (a, b)" by fastforce
    show ?case using Cons run [of i] by (simp add: st Let_def)
  qed simp
  from this [of "(8, 8)" "[0..<8]"] assms(2,3) show ?thesis by (auto simp: zero_run_def)
qed

lemma string6_inject:
  assumes "length gs = 8" "length hs = 8"
  shows "string6 gs = string6 hs \<longleftrightarrow> gs = hs"
proof
  assume eq: "string6 gs = string6 hs"
  obtain zs ze where z: "zero_run gs = (zs, ze)" by fastforce
  obtain ys ye where y: "zero_run hs = (ys, ye)" by fastforce
  have cut: "cut_colons (string6 ks) =
      (if xs < 8 then Some (join_hex (take xs ks), join_hex (drop xe ks)) else None)"
    if "zero_run ks = (xs, xe)" for ks xs xe
    using that cut_double [of "take xs ks"] cut_join_none [of ks] by (simp add: string6_def)
  show "gs = hs"
  proof (cases "zs < 8")
    case True
    then have "ys < 8" "join_hex (take zs gs) = join_hex (take ys hs)" "join_hex (drop ze gs) = join_hex (drop ye hs)"
      using cut [OF z] cut [OF y] eq by (auto split: if_splits)
    then have parts: "take zs gs = take ys hs" "drop ze gs = drop ye hs" by (simp_all add: join_hex_inject_all)
    note g = zero_run_spec [OF assms(1) z True] and h = zero_run_spec [OF assms(2) y \<open>ys < 8\<close>]
    have "zs = ys" using parts(1) True \<open>ys < 8\<close> assms by (metis length_take min.absorb2 order.strict_implies_order)
    moreover have "ze = ye" using parts(2) g h assms by (metis length_drop diff_diff_cancel)
    ultimately show ?thesis using parts g h by metis
  next
    case False
    then have "\<not> ys < 8" using cut [OF z] cut [OF y] eq by (auto split: if_splits)
    with False z y eq show ?thesis by (simp add: string6_def join_hex_inject_all)
  qed
qed simp

lemma groups_inject: "groups v = groups w \<longleftrightarrow> v = w"
proof
  assume eq: "groups v = groups w"
  show "v = w"
  proof (rule bit_word_eqI)
    fix n assume n: "n < LENGTH(128)"
    let ?i = "7 - n div 16"
    have "n div 16 < 8" using n by simp
    then have "112 - 16 * ?i = 16 * (n div 16)" by linarith
    then have i: "?i < 8" "112 - 16 * ?i + n mod 16 = n" "n mod 16 < 16" by simp_all
    have "v6_group v ?i = v6_group w ?i" using eq i(1) by (auto simp: groups_def)
    then have "drop_bit (112 - 16 * ?i) v AND mask 16 = drop_bit (112 - 16 * ?i) w AND mask 16"
      by (simp add: v6_group_def word_unat_eq_iff)
    then have "bit (drop_bit (112 - 16 * ?i) v AND mask 16) (n mod 16) = bit (drop_bit (112 - 16 * ?i) w AND mask 16) (n mod 16)"
      by (rule arg_cong)
    then show "bit v n = bit w n" using i n by (simp add: bit_simps bit_drop_bit_eq)
  qed
qed simp

lemma string4_inject: "string4 v = string4 w \<longleftrightarrow> v = w"
proof
  let ?f = "\<lambda>v :: 32 word. map (\<lambda>k. nat_digits (unat (drop_bit (24 - 8 * k) v AND mask 8))) [0..<4]"
  assume eq: "string4 v = string4 w"
  have "SplitByte (CHR ''.'') (string4 v) = ?f v" for v
    unfolding string4_def by (rule SplitByte_Join) (auto simp: nat_digits_no)
  with eq have f: "?f v = ?f w" by metis
  show "v = w"
  proof (rule bit_word_eqI)
    fix n assume n: "n < LENGTH(32)"
    let ?i = "3 - n div 8"
    have "n div 8 < 4" using n by simp
    then have "24 - 8 * ?i = 8 * (n div 8)" by linarith
    then have i: "?i < 4" "24 - 8 * ?i + n mod 8 = n" "n mod 8 < 8" by simp_all
    have "?f v ! ?i = ?f w ! ?i" using f by simp
    then have "drop_bit (24 - 8 * ?i) v AND mask 8 = drop_bit (24 - 8 * ?i) w AND mask 8"
      using i(1) by (simp add: nat_digits_inject word_unat_eq_iff)
    then have "bit (drop_bit (24 - 8 * ?i) v AND mask 8) (n mod 8) = bit (drop_bit (24 - 8 * ?i) w AND mask 8) (n mod 8)"
      by (rule arg_cong)
    then show "bit v n = bit w n" using i n by (simp add: bit_simps bit_drop_bit_eq)
  qed
qed simp

lemma string4_chars: "CHR ''.'' \<in> set (string4 v)" "CHR '':'' \<notin> set (string4 v)" "CHR ''/'' \<notin> set (string4 v)"
  by (simp_all add: string4_def upt_rec nat_digits_no)

lemma join_hex_chars: "set (join_hex gs) \<subseteq> \<Union> (set ` hex_str ` set gs) \<union> {CHR '':''}"
  using set_Join [of "map hex_str gs" "'':''"] by simp

lemma string6_chars:
  assumes "length gs = 8"
  shows "CHR '':'' \<in> set (string6 gs)" "CHR ''.'' \<notin> set (string6 gs)" "CHR ''/'' \<notin> set (string6 gs)"
proof -
  have "CHR '':'' \<in> set (join_hex gs)"
    using assms by (auto simp: numeral_eq_Suc length_Suc_conv)
  then show "CHR '':'' \<in> set (string6 gs)" by (cases "zero_run gs") (simp add: string6_def)
  have "CHR ''.'' \<notin> set (join_hex hs)" "CHR ''/'' \<notin> set (join_hex hs)" for hs
    using join_hex_chars [of hs] hex_str_no by fastforce+
  then show "CHR ''.'' \<notin> set (string6 gs)" "CHR ''/'' \<notin> set (string6 gs)"
    by (auto simp: string6_def split: prod.splits)
qed

definition plain_addr :: "addr \<Rightarrow> bool" where
  "plain_addr a \<longleftrightarrow> a \<noteq> NoAddr \<and> Zone a = []"

lemma length_groups [simp]: "length (groups w) = 8"
  by (simp add: groups_def)

lemma ucast_4in6: "Is4In6 (V6 w []) \<Longrightarrow> Is4In6 (V6 w' []) \<Longrightarrow> (ucast w :: 32 word) = ucast w' \<Longrightarrow> w = w'"
proof (rule bit_word_eqI)
  fix n assume n: "n < LENGTH(128)" and h: "Is4In6 (V6 w [])" "Is4In6 (V6 w' [])" and u: "(ucast w :: 32 word) = ucast w'"
  show "bit w n = bit w' n"
  proof (cases "n < 32")
    case True
    then show ?thesis using arg_cong [OF u, of "\<lambda>x. bit x n"] by (simp add: bit_simps)
  next
    case False
    have "drop_bit 32 w = drop_bit 32 w'" using h by simp
    from arg_cong [OF this, of "\<lambda>x. bit x (n - 32)"] False show ?thesis by (simp add: bit_drop_bit_eq)
  qed
qed

lemma Addr_String_inject:
  assumes "plain_addr a" "plain_addr b" "Addr_String a = Addr_String b"
  shows "a = b"
proof -
  have colon: "CHR '':'' \<in> set (Addr_String (V6 w []))" for w
    by (simp add: zone_suffix_def string6_chars del: Is4In6.simps)
  have dot: "CHR ''.'' \<in> set (Addr_String (V6 w [])) \<longleftrightarrow> Is4In6 (V6 w [])" for w
    by (simp add: zone_suffix_def string6_chars string4_chars del: Is4In6.simps)
  have v6: "w = w'" if "Addr_String (V6 w []) = Addr_String (V6 w' [])" for w w'
  proof (cases "Is4In6 (V6 w [])")
    case True
    then have "Is4In6 (V6 w' [])" using dot that by metis
    with True that have "string4 (ucast w) = string4 (ucast w')"
      by (simp add: zone_suffix_def del: Is4In6.simps)
    with True \<open>Is4In6 (V6 w' [])\<close> show ?thesis by (simp add: string4_inject ucast_4in6 del: Is4In6.simps)
  next
    case False
    then have "\<not> Is4In6 (V6 w' [])" using dot that by metis
    with False that have "string6 (groups w) = string6 (groups w')"
      by (simp add: zone_suffix_def del: Is4In6.simps)
    then show ?thesis by (simp add: string6_inject groups_inject)
  qed
  show ?thesis
  proof (cases a)
    case (V4 v)
    show ?thesis
    proof (cases b)
      case (V6 w z)
      with V4 assms have "CHR '':'' \<in> set (string4 v)" using colon [of w] by (simp add: plain_addr_def)
      then show ?thesis by (simp add: string4_chars)
    qed (use V4 assms in \<open>auto simp: plain_addr_def string4_inject\<close>)
  next
    case (V6 w z)
    show ?thesis
    proof (cases b)
      case (V4 v)
      with V6 assms have "CHR '':'' \<in> set (string4 v)" using colon [of w] by (simp add: plain_addr_def)
      then show ?thesis by (simp add: string4_chars)
    next
      case (V6 w' z')
      with \<open>a = V6 w z\<close> assms v6 [of w w'] show ?thesis by (simp add: plain_addr_def)
    qed (use assms in \<open>simp add: plain_addr_def\<close>)
  qed (use assms in \<open>simp add: plain_addr_def\<close>)
qed

lemma Addr_String_no_slash: "plain_addr a \<Longrightarrow> CHR ''/'' \<notin> set (Addr_String a)"
  by (cases a) (simp_all add: plain_addr_def zone_suffix_def string4_chars string6_chars del: Is4In6.simps)

lemma Prefix_String_inject:
  assumes "plain_addr (paddr p)" "plain_addr (paddr q)" "prefix_valid p" "prefix_valid q"
    and "Prefix_String p = Prefix_String q"
  shows "p = q"
proof -
  have cut: "cut_byte (CHR ''/'') (Prefix_String r) = Some (Addr_String (paddr r), nat_digits (nat (pbits r)))"
    if "plain_addr (paddr r)" "prefix_valid r" for r
    using that Addr_String_no_slash [of "paddr r"]
    by (simp add: Prefix_String_def Itoa_def prefix_valid_def)
  have "Addr_String (paddr p) = Addr_String (paddr q)" "nat (pbits p) = nat (pbits q)"
    using cut [OF assms(1,3)] cut [OF assms(2,4)] assms(5) by (auto simp: nat_digits_inject)
  with assms Addr_String_inject show ?thesis by (cases p; cases q) (auto simp: prefix_valid_def)
qed

end
