(* ===== verification/Ratelimit.thy ===== *)
theory Ratelimit
  imports Netip_String Path_Trie
begin

section \<open>The rate limiter (internal/ratelimit/limiter.go)\<close>

text \<open>
  One token bucket per source prefix. The bucket is \<open>rate.Limiter\<close> of the package
  \<open>golang.org/x/time/rate\<close>, which is not part of the repository: its constructor and its
  \<open>Allow\<close>, a state transformer that also reads the clock, are the parameter \<open>rate_pkg\<close>. The
  clock is a parameter of every operation that reads it; \<open>gc_tick\<close> is one turn of \<open>gcLoop\<close>.
\<close>

record ('f, 'l) rate_pkg =
  rate_NewLimiter :: "'f \<Rightarrow> int \<Rightarrow> 'l"
  rate_Allow :: "int \<Rightarrow> 'l \<Rightarrow> 'l \<times> bool"

record 'f rl_config =
  rl_RPS :: 'f
  rl_Burst :: int
  rl_V4Prefix :: int
  rl_V6Prefix :: int
  rl_IdleTTL :: int

record 'l rl_entry =
  e_lim :: 'l
  e_lastSeen :: int

record ('f, 'l) Limiter =
  lim_cfg :: "'f rl_config"
  lim_buckets :: "(string, 'l rl_entry) gomap"

text \<open>\<open>New\<close> starts \<open>gcLoop\<close>, whose \<open>time.NewTicker\<close> panics on an interval that is not positive.\<close>

definition limiter_New :: "'f rl_config \<Rightarrow> ('f, 'l) Limiter option" where
  "limiter_New cfg =
     (if rl_IdleTTL cfg sdiv 2 \<le> 0 then None
      else Some \<lparr>lim_cfg = cfg, lim_buckets = Mapping.empty\<rparr>)"

definition bucketKey :: "'f rl_config \<Rightarrow> addr \<Rightarrow> string" where
  "bucketKey cfg src =
     (if \<not> IsValid src then ''invalid''
      else let (bits, src') = (if Is4 src \<or> Is4In6 src then (rl_V4Prefix cfg, Unmap src) else (rl_V6Prefix cfg, src))
           in Prefix_String (Masked (PrefixFrom src' bits)))"

definition limiter_Allow ::
    "('f, 'l) rate_pkg \<Rightarrow> int \<Rightarrow> addr \<Rightarrow> ('f, 'l) Limiter \<Rightarrow> ('f, 'l) Limiter \<times> bool" where
  "limiter_Allow pkg now src l =
     (let key = bucketKey (lim_cfg l) src;
          lim = (case Mapping.lookup (lim_buckets l) key of
                   Some e \<Rightarrow> e_lim e
                 | None \<Rightarrow> rate_NewLimiter pkg (rl_RPS (lim_cfg l)) (rl_Burst (lim_cfg l)));
          (lim', ok) = rate_Allow pkg now lim
      in (l\<lparr>lim_buckets := Mapping.update key \<lparr>e_lim = lim', e_lastSeen = now\<rparr> (lim_buckets l)\<rparr>, ok))"

definition gc_tick :: "int \<Rightarrow> ('f, 'l) Limiter \<Rightarrow> ('f, 'l) Limiter" where
  "gc_tick now l =
     l\<lparr>lim_buckets := Mapping.filter (\<lambda>k e. \<not> now - e_lastSeen e > rl_IdleTTL (lim_cfg l)) (lim_buckets l)\<rparr>"

end
