(* ===== verification/Ratelimit_Props.thy ===== *)
theory Ratelimit_Props
  imports Ratelimit Cidr_Props
begin

section \<open>Properties of the rate limiter\<close>

text \<open>
  The keys of the buckets identify source networks, and the decisions for one network are
  those of a single token bucket that sees only the requests of that network and the turns of
  the garbage collector.
\<close>

definition cfg_ok :: "'f rl_config \<Rightarrow> bool" where
  "cfg_ok cfg \<longleftrightarrow> 0 \<le> rl_V4Prefix cfg \<and> rl_V4Prefix cfg \<le> 32 \<and> 0 \<le> rl_V6Prefix cfg \<and> rl_V6Prefix cfg \<le> 128"

text \<open>The network of an address: its family after unmapping and the leading bits of that family.\<close>

fun network :: "'f rl_config \<Rightarrow> addr \<Rightarrow> (32 word + 128 word) option" where
  "network cfg NoAddr = None"
| "network cfg (V4 v) = Some (Inl (drop_bit (32 - nat (rl_V4Prefix cfg)) v))"
| "network cfg (V6 w z) =
     (if Is4In6 (V6 w z) then Some (Inl (drop_bit (32 - nat (rl_V4Prefix cfg)) (ucast w)))
      else Some (Inr (drop_bit (128 - nat (rl_V6Prefix cfg)) w)))"

lemma mask_out_eq:
  "(v :: 'a::len word) AND NOT (mask n) = w AND NOT (mask n) \<longleftrightarrow> drop_bit n v = drop_bit n w"
proof
  assume l: "v AND NOT (mask n) = w AND NOT (mask n)"
  have "bit v (n + k) = bit w (n + k)" for k
  proof (cases "n + k < LENGTH('a)")
    case True
    then show ?thesis using arg_cong [OF l, of "\<lambda>x. bit x (n + k)"] by (simp add: bit_simps)
  qed (auto dest: bit_imp_le_length)
  then show "drop_bit n v = drop_bit n w" by (simp add: drop_bit_eq_bits)
next
  assume r: "drop_bit n v = drop_bit n w"
  then have b: "bit v (n + k) = bit w (n + k)" for k by (simp add: drop_bit_eq_bits)
  show "v AND NOT (mask n) = w AND NOT (mask n)"
  proof (rule bit_word_eqI)
    fix k assume "k < LENGTH('a)"
    with b [of "k - n"] show "bit (v AND NOT (mask n)) k = bit (w AND NOT (mask n)) k"
      by (cases "k < n") (auto simp: bit_simps)
  qed
qed

definition key_prefix_of :: "'f rl_config \<Rightarrow> addr \<Rightarrow> prefix" where
  "key_prefix_of cfg src =
     (let (bits, src') = (if Is4 src \<or> Is4In6 src then (rl_V4Prefix cfg, Unmap src) else (rl_V6Prefix cfg, src))
      in Masked (PrefixFrom src' bits))"

lemma key_prefix_of_V4:
  "cfg_ok cfg \<Longrightarrow> key_prefix_of cfg (V4 v) = Prefix (V4 (v AND NOT (mask (32 - nat (rl_V4Prefix cfg))))) (rl_V4Prefix cfg)"
  by (simp add: key_prefix_of_def PrefixFrom_def cfg_ok_def)

lemma key_prefix_of_V6:
  "cfg_ok cfg \<Longrightarrow> key_prefix_of cfg (V6 w z) =
     (if Is4In6 (V6 w z) then key_prefix_of cfg (V4 (ucast w))
      else Prefix (V6 (w AND NOT (mask (128 - nat (rl_V6Prefix cfg)))) []) (rl_V6Prefix cfg))"
  by (simp add: key_prefix_of_def PrefixFrom_def cfg_ok_def)

lemma key_prefix_plain: "cfg_ok cfg \<Longrightarrow> IsValid a \<Longrightarrow> plain_addr (paddr (key_prefix_of cfg a)) \<and> prefix_valid (key_prefix_of cfg a)"
  by (cases a) (auto simp: key_prefix_of_V4 key_prefix_of_V6 plain_addr_def prefix_valid_def cfg_ok_def IsValid_def)

lemma key_prefix_network:
  assumes "cfg_ok cfg" "IsValid a" "IsValid b"
  shows "key_prefix_of cfg a = key_prefix_of cfg b \<longleftrightarrow> network cfg a = network cfg b"
  using assms
  by (cases a; cases b) (auto simp: key_prefix_of_V4 key_prefix_of_V6 mask_out_eq IsValid_def simp del: Is4In6.simps)

lemma bucketKey_valid: "IsValid a \<Longrightarrow> bucketKey cfg a = Prefix_String (key_prefix_of cfg a)"
  by (simp add: bucketKey_def key_prefix_of_def split: prod.splits)

lemma Prefix_String_slash: "prefix_valid p \<Longrightarrow> CHR ''/'' \<in> set (Prefix_String p)"
  by (simp add: Prefix_String_def)

lemma bucketKey_network:
  assumes "cfg_ok cfg"
  shows "bucketKey cfg a = bucketKey cfg b \<longleftrightarrow> network cfg a = network cfg b"
proof (cases "IsValid a \<and> IsValid b")
  case True
  then show ?thesis
    using key_prefix_plain [OF assms] key_prefix_network [OF assms] Prefix_String_inject
    by (metis bucketKey_valid)
next
  case False
  have "bucketKey cfg NoAddr = ''invalid''" by (simp add: bucketKey_def IsValid_def)
  moreover have "bucketKey cfg c \<noteq> ''invalid''" "network cfg c \<noteq> None" if "IsValid c" for c
  proof -
    have "CHR ''/'' \<in> set (bucketKey cfg c)"
      using that key_prefix_plain [OF assms that] by (simp add: bucketKey_valid Prefix_String_slash)
    then show "bucketKey cfg c \<noteq> ''invalid''" by auto
    show "network cfg c \<noteq> None" using that by (cases c) (auto simp: IsValid_def)
  qed
  ultimately show ?thesis using False
    by (metis IsValid_def network.simps(1))
qed

text \<open>
  C38: for prefix lengths within their range, two sources share a bucket exactly when they lie
  in the same network: the same family after unmapping, and the same leading bits of the
  configured length; sources without a valid address share one bucket of their own.
\<close>

theorem bucket_per_network:
  assumes "cfg_ok cfg"
  shows "bucketKey cfg a = bucketKey cfg b \<longleftrightarrow> network cfg a = network cfg b"
  using assms by (rule bucketKey_network)

theorem bucket_per_network_witness:
  "bucketKey \<lparr>rl_RPS = (), rl_Burst = 5, rl_V4Prefix = 24, rl_V6Prefix = 48, rl_IdleTTL = 600\<rparr> (V4 0xC0000201) =
   bucketKey \<lparr>rl_RPS = (), rl_Burst = 5, rl_V4Prefix = 24, rl_V6Prefix = 48, rl_IdleTTL = 600\<rparr> (V6 0xFFFFC00002FE [])"
proof -
  let ?cfg = "\<lparr>rl_RPS = (), rl_Burst = 5, rl_V4Prefix = 24, rl_V6Prefix = 48, rl_IdleTTL = 600\<rparr>"
  have "cfg_ok ?cfg" by (simp add: cfg_ok_def)
  moreover have "network ?cfg (V4 0xC0000201) = network ?cfg (V6 0xFFFFC00002FE [])" by code_simp
  ultimately show ?thesis using bucket_per_network by blast
qed

subsection \<open>Decisions\<close>

text \<open>
  What happens to a limiter: requests, and turns of the garbage collector, which run in a
  goroutine of their own and so come in any order among the requests.
\<close>

datatype lim_event = Request int addr | Collect int

fun lim_run :: "('f, 'l) rate_pkg \<Rightarrow> lim_event list \<Rightarrow> ('f, 'l) Limiter \<Rightarrow> (addr \<times> bool) list" where
  "lim_run pkg [] l = []"
| "lim_run pkg (Request now src # es) l = (let (l', ok) = limiter_Allow pkg now src l in (src, ok) # lim_run pkg es l')"
| "lim_run pkg (Collect now # es) l = lim_run pkg es (gc_tick now l)"

text \<open>
  The specification, without keys and maps: one token bucket with the time it was last used. It
  is made full when it is needed and absent, and a collection drops it when it has been idle
  for longer than the idle time.
\<close>

fun bucket_run :: "('f, 'l) rate_pkg \<Rightarrow> 'f rl_config \<Rightarrow> lim_event list \<Rightarrow> ('l \<times> int) option \<Rightarrow> bool list" where
  "bucket_run pkg cfg [] b = []"
| "bucket_run pkg cfg (Request now src # es) b =
     (let lim = (case b of Some (x, _) \<Rightarrow> x | None \<Rightarrow> rate_NewLimiter pkg (rl_RPS cfg) (rl_Burst cfg));
          (lim', ok) = rate_Allow pkg now lim
      in ok # bucket_run pkg cfg es (Some (lim', now)))"
| "bucket_run pkg cfg (Collect now # es) b =
     bucket_run pkg cfg es (case b of
       Some (x, seen) \<Rightarrow> if now - seen > rl_IdleTTL cfg then None else Some (x, seen)
     | None \<Rightarrow> None)"

definition concerns :: "(addr \<Rightarrow> bool) \<Rightarrow> lim_event \<Rightarrow> bool" where
  "concerns P e = (case e of Request _ src \<Rightarrow> P src | Collect _ \<Rightarrow> True)"

lemma concerns_simps [simp]: "concerns P (Request now src) = P src" "concerns P (Collect now)"
  by (simp_all add: concerns_def)

definition bucket_of :: "('f, 'l) Limiter \<Rightarrow> string \<Rightarrow> ('l \<times> int) option" where
  "bucket_of l k = map_option (\<lambda>e. (e_lim e, e_lastSeen e)) (Mapping.lookup (lim_buckets l) k)"

lemma Allow_bucket:
  assumes "limiter_Allow pkg now src l = (l', ok)"
  shows "lim_cfg l' = lim_cfg l"
    and "\<exists>x'. rate_Allow pkg now (case bucket_of l (bucketKey (lim_cfg l) src) of
        Some (x, _) \<Rightarrow> x | None \<Rightarrow> rate_NewLimiter pkg (rl_RPS (lim_cfg l)) (rl_Burst (lim_cfg l))) = (x', ok) \<and>
      bucket_of l' (bucketKey (lim_cfg l) src) = Some (x', now)"
    and "k \<noteq> bucketKey (lim_cfg l) src \<Longrightarrow> bucket_of l' k = bucket_of l k"
  using assms by (auto simp: limiter_Allow_def bucket_of_def Let_def gomap_simps split: prod.splits option.split)

lemma gc_bucket:
  "lim_cfg (gc_tick now l) = lim_cfg l"
  "bucket_of (gc_tick now l) k = (case bucket_of l k of
     Some (x, seen) \<Rightarrow> if now - seen > rl_IdleTTL (lim_cfg l) then None else Some (x, seen) | None \<Rightarrow> None)"
  by (simp_all add: gc_tick_def bucket_of_def Mapping.lookup_filter split: option.split)

lemma lim_run_filter:
  "map snd (filter (\<lambda>(src, ok). bucketKey (lim_cfg l) src = k) (lim_run pkg es l)) =
   bucket_run pkg (lim_cfg l) (filter (concerns (\<lambda>src. bucketKey (lim_cfg l) src = k)) es) (bucket_of l k)"
proof (induction es arbitrary: l)
  case (Cons e es)
  show ?case
  proof (cases e)
    case (Request now src)
    obtain l' ok where a: "limiter_Allow pkg now src l = (l', ok)" by fastforce
    note b = Allow_bucket [OF a]
    obtain x' where x: "rate_Allow pkg now (case bucket_of l (bucketKey (lim_cfg l) src) of
        Some (x, _) \<Rightarrow> x | None \<Rightarrow> rate_NewLimiter pkg (rl_RPS (lim_cfg l)) (rl_Burst (lim_cfg l))) = (x', ok)"
      "bucket_of l' (bucketKey (lim_cfg l) src) = Some (x', now)"
      using b(2) by blast
    show ?thesis
      using Cons.IH [of l'] b(3) [of k] b(1) x by (cases "bucketKey (lim_cfg l) src = k") (auto simp: Request a)
  next
    case (Collect now)
    then show ?thesis using Cons.IH [of "gc_tick now l"] by (simp add: gc_bucket)
  qed
qed simp

text \<open>
  C19: the limiter refines one token bucket per network. Whatever requests and garbage collections
  happen in which order, the decisions for the requests of one network are those of a single
  bucket that starts full, sees exactly the requests of that network at their times, and is
  dropped (and full again at the next request) exactly by a collection that finds it idle for
  longer than the idle time; the requests of other networks, however many, have no influence.
\<close>

theorem limiter_refines_buckets:
  assumes "cfg_ok cfg"
  shows "map snd (filter (\<lambda>(a, ok). network cfg a = network cfg src)
      (lim_run pkg es \<lparr>lim_cfg = cfg, lim_buckets = Mapping.empty\<rparr>)) =
    bucket_run pkg cfg (filter (concerns (\<lambda>a. network cfg a = network cfg src)) es) None"
  using lim_run_filter [of "\<lparr>lim_cfg = cfg, lim_buckets = Mapping.empty\<rparr>" "bucketKey cfg src" pkg es]
  by (simp add: bucketKey_network [OF assms] bucket_of_def)

text \<open>A bucket that holds a number of tokens and never refills, as a witness.\<close>

definition counting_pkg :: "(unit, int) rate_pkg" where
  "counting_pkg = \<lparr>rate_NewLimiter = (\<lambda>_ b. b), rate_Allow = (\<lambda>_ n. if 0 < n then (n - 1, True) else (n, False))\<rparr>"

definition host_cfg :: "unit rl_config" where
  "host_cfg = \<lparr>rl_RPS = (), rl_Burst = 1, rl_V4Prefix = 32, rl_V6Prefix = 128, rl_IdleTTL = 600\<rparr>"

text \<open>
  Two hosts with one token each. The collection at 700 finds the bucket of the first idle since 2
  and the other in use at 650, so the first host has a full bucket again.
\<close>

definition host_events :: "lim_event list" where
  "host_events = [Request 0 (V4 1), Request 1 (V4 2), Request 2 (V4 1), Request 650 (V4 2), Collect 700,
     Request 701 (V4 1), Request 702 (V4 2)]"

theorem limiter_refines_buckets_witness:
  "map snd (filter (\<lambda>(a, ok). network host_cfg a = network host_cfg (V4 1))
     (lim_run counting_pkg host_events \<lparr>lim_cfg = host_cfg, lim_buckets = Mapping.empty\<rparr>)) = [True, False, True] \<and>
   map snd (filter (\<lambda>(a, ok). network host_cfg a = network host_cfg (V4 2))
     (lim_run counting_pkg host_events \<lparr>lim_cfg = host_cfg, lim_buckets = Mapping.empty\<rparr>)) = [True, False, False]"
proof -
  have ok: "cfg_ok host_cfg" by (simp add: cfg_ok_def host_cfg_def)
  show ?thesis
    unfolding limiter_refines_buckets [OF ok] by (simp add: host_events_def counting_pkg_def host_cfg_def)
qed

text \<open>
  Garbage collection removes exactly the buckets that were last used longer ago than the
  idle time; a bucket in use keeps its tokens.
\<close>

theorem gc_keeps_active:
  "Mapping.lookup (lim_buckets (gc_tick now l)) k =
     (case Mapping.lookup (lim_buckets l) k of
        None \<Rightarrow> None
      | Some e \<Rightarrow> if now - e_lastSeen e > rl_IdleTTL (lim_cfg l) then None else Some e)"
  by (simp add: gc_tick_def Mapping.lookup_filter split: option.splits)

end
