(* ===== verification/Ring.thy ===== *)
theory Ring
  imports Prelude
begin

section \<open>The sliding window of event counts (internal/stats/ring.go)\<close>

text \<open>
  \<open>ringCounter\<close> keeps one 32-bit counter per second in a ring. Seconds are Unix times; they are
  64-bit integers in the program and unbounded here, as no reachable clock value comes near
  the bound. The remainder of Go truncates towards zero (\<open>smod\<close>). A tick whose index is
  negative, or on a ring without buckets, panics: the result is \<open>None\<close>.
\<close>

record ringCounter =
  r_buckets :: "32 word list"
  r_headSec :: int

definition ring_init :: "nat \<Rightarrow> ringCounter" where
  "ring_init sizeSeconds = \<lparr>r_buckets = replicate sizeSeconds 0, r_headSec = 0\<rparr>"

text \<open>The index computed as \<open>idx := int(k % n); if idx < 0 { idx += n }\<close>.\<close>

definition ring_idx :: "int \<Rightarrow> int \<Rightarrow> int" where
  "ring_idx k n = (let idx = k smod n in if idx < 0 then idx + n else idx)"

definition ring_advance :: "int \<Rightarrow> ringCounter \<Rightarrow> ringCounter" where
  "ring_advance sec r =
     (if r_headSec r = 0 then r\<lparr>r_headSec := sec\<rparr>
      else let delta = sec - r_headSec r in
        if delta \<le> 0 then r
        else let n = int (length (r_buckets r)) in
          if n \<le> delta then r\<lparr>r_buckets := map (\<lambda>_. 0) (r_buckets r), r_headSec := sec\<rparr>
          else r\<lparr>r_buckets := fold (\<lambda>i bs. bs[nat (ring_idx (r_headSec r + int i) n) := 0]) [1..<Suc (nat delta)] (r_buckets r),
                 r_headSec := sec\<rparr>)"

definition ring_tick :: "int \<Rightarrow> ringCounter \<Rightarrow> ringCounter option" where
  "ring_tick sec r =
     (let r1 = ring_advance sec r; n = int (length (r_buckets r1)); idx = sec smod n
      in if n = 0 \<or> idx < 0 then None
         else Some (r1\<lparr>r_buckets := (r_buckets r1)[nat idx := r_buckets r1 ! nat idx + 1]\<rparr>))"

text \<open>\<open>rate\<close> divides \<open>total\<close> by \<open>n - 1\<close> in floating point; the model returns the two numbers.\<close>

definition ring_rate :: "int \<Rightarrow> ringCounter \<Rightarrow> ringCounter \<times> 64 word \<times> nat" where
  "ring_rate sec r =
     (let r1 = ring_advance sec r; n = length (r_buckets r1);
          total = fold (\<lambda>i t. t + ucast (r_buckets r1 ! nat (ring_idx (sec - int i) (int n)))) [1..<n] 0
      in (r1, total, n - 1))"

subsection \<open>Indices\<close>

lemma ring_idx_mod: "0 < n \<Longrightarrow> ring_idx k n = k mod n"
proof -
  assume n: "0 < n"
  show ?thesis
  proof (cases "0 \<le> k")
    case True
    then have "k smod n = k mod n" using n by (simp add: smod_int_alt_def sgn_if abs_if)
    moreover have "\<not> k mod n < 0" using n by (simp add: not_less)
    ultimately show ?thesis by (simp add: ring_idx_def)
  next
    case False
    then have s: "k smod n = - ((- k) mod n)" using n by (simp add: smod_int_alt_def sgn_if abs_if)
    show ?thesis
    proof (cases "(- k) mod n = 0")
      case True
      then have "k mod n = 0" by (metis minus_equation_iff mod_minus_eq zmod_zminus1_eq_if)
      with True s show ?thesis by (simp add: ring_idx_def)
    next
      case False
      moreover have "0 \<le> (- k) mod n" using n by simp
      ultimately have "0 < (- k) mod n" by simp
      moreover have "k mod n = n - (- k) mod n"
        using False zmod_zminus1_eq_if [of "- k" n] by simp
      ultimately show ?thesis using s by (simp add: ring_idx_def)
    qed
  qed
qed

lemma smod_pos: "0 \<le> k \<Longrightarrow> 0 < n \<Longrightarrow> k smod n = k mod (n :: int)"
  by (simp add: smod_int_alt_def sgn_if abs_if)

lemma mod_window_inj:
  assumes "0 < n" "b - n < x" "x \<le> b" "b - n < y" "y \<le> b" "x mod n = y mod (n :: int)"
  shows "x = y"
proof -
  have "n dvd x - y" using assms(6) by (simp add: mod_eq_dvd_iff)
  moreover have "\<bar>x - y\<bar> < n" using assms by linarith
  ultimately have "x - y = 0" using dvd_imp_le_int [of "x - y" n] assms(1) by linarith
  then show ?thesis by simp
qed

lemma length_fold_update: "length (fold (\<lambda>i bs. bs[f i := v]) is bs) = length bs"
  by (induction "is" arbitrary: bs) auto

lemma nth_fold_update:
  "j < length bs \<Longrightarrow> fold (\<lambda>i bs. bs[f i := v]) is bs ! j = (if j \<in> f ` set is then v else bs ! j)"
  by (induction "is" arbitrary: bs) (auto simp: nth_list_update)

subsection \<open>The window\<close>

definition cell :: "ringCounter \<Rightarrow> int \<Rightarrow> 32 word" where
  "cell r k = r_buckets r ! nat (k mod int (length (r_buckets r)))"

text \<open>
  \<open>ring_inv n r evs\<close>: the ring has \<open>n\<close> buckets, every event so far lies at or before its head,
  and the bucket of each second of the window holds the number of events in that second.
\<close>

definition ring_inv :: "nat \<Rightarrow> ringCounter \<Rightarrow> int list \<Rightarrow> bool" where
  "ring_inv n r evs \<longleftrightarrow>
     length (r_buckets r) = n \<and> 0 < n \<and>
     (if r_headSec r = 0 then evs = [] \<and> (\<forall>k. cell r k = 0)
      else 0 < r_headSec r \<and> (\<forall>e \<in> set evs. e \<le> r_headSec r) \<and>
        (\<forall>k. r_headSec r - int n < k \<and> k \<le> r_headSec r \<longrightarrow> cell r k = of_nat (count_list evs k)))"

lemma ring_init_inv: "0 < n \<Longrightarrow> ring_inv n (ring_init n) []"
  by (simp add: ring_inv_def ring_init_def cell_def nat_less_iff)

lemma count_list_0: "\<forall>e \<in> set evs. e \<le> h \<Longrightarrow> h < k \<Longrightarrow> count_list evs k = 0" for k :: int
  by (metis count_list_0_iff leD)

lemma ring_advance_inv:
  assumes inv: "ring_inv n r evs" and sec: "0 < sec" "r_headSec r \<le> sec"
  shows "ring_inv n (ring_advance sec r) evs \<and> r_headSec (ring_advance sec r) = sec"
proof (cases "r_headSec r = 0 \<or> r_headSec r = sec")
  case True
  with inv sec show ?thesis by (auto simp: ring_advance_def ring_inv_def cell_def)
next
  case False
  let ?h = "r_headSec r"
  have h: "0 < ?h" "?h < sec" and len: "length (r_buckets r) = n" "0 < n"
    and old: "\<forall>e \<in> set evs. e \<le> ?h" "\<forall>k. ?h - int n < k \<and> k \<le> ?h \<longrightarrow> cell r k = of_nat (count_list evs k)"
    using inv sec False by (auto simp: ring_inv_def)
  have idx: "nat (k mod int n) < n" for k using len(2) by (simp add: nat_less_iff)
  show ?thesis
  proof (cases "int n \<le> sec - ?h")
    case True
    then have "ring_advance sec r = r\<lparr>r_buckets := map (\<lambda>_. 0) (r_buckets r), r_headSec := sec\<rparr>"
      using h len by (simp add: ring_advance_def Let_def)
    with True h len old idx show ?thesis
      by (auto simp: ring_inv_def cell_def count_list_0 intro: order.trans)
  next
    case False
    let ?f = "\<lambda>i. nat (ring_idx (?h + int i) (int n))"
    let ?bs = "fold (\<lambda>i bs. bs[?f i := 0]) [1..<Suc (nat (sec - ?h))] (r_buckets r)"
    have adv: "ring_advance sec r = r\<lparr>r_buckets := ?bs, r_headSec := sec\<rparr>"
      using False h len by (simp add: ring_advance_def Let_def)
    have f: "?f i = nat ((?h + int i) mod int n)" for i using len(2) by (simp add: ring_idx_mod)
    have "?bs ! nat (k mod int n) = of_nat (count_list evs k)" if k: "sec - int n < k" "k \<le> sec" for k
    proof (cases "?h < k")
      case True
      then have i: "nat (k - ?h) \<in> set [1..<Suc (nat (sec - ?h))]" "?f (nat (k - ?h)) = nat (k mod int n)"
        using k unfolding f by auto
      have m: "nat (k mod int n) \<in> ?f ` set [1..<Suc (nat (sec - ?h))]"
        using imageI [OF i(1), of ?f] unfolding i(2) .
      have "?bs ! nat (k mod int n) = 0"
        using m idx [of k] unfolding nth_fold_update [of "nat (k mod int n)" "r_buckets r" ?f, unfolded len, OF idx]
        by (simp only: if_True)
      moreover have "count_list evs k = 0" using old(1) True by (rule count_list_0)
      ultimately show ?thesis by simp
    next
      case below: False
      have "nat (k mod int n) \<notin> ?f ` set [1..<Suc (nat (sec - ?h))]"
      proof
        assume "nat (k mod int n) \<in> ?f ` set [1..<Suc (nat (sec - ?h))]"
        then obtain i where i': "i \<in> set [1..<Suc (nat (sec - ?h))]" "nat (k mod int n) = nat ((?h + int i) mod int n)"
          unfolding f by blast
        then have i: "1 \<le> i" "int i \<le> sec - ?h" by auto
        have "k mod int n = (?h + int i) mod int n" using i'(2) len(2) by (simp add: eq_nat_nat_iff)
        note i = i this
        have "0 < int n" "sec - int n < ?h + int i" "?h + int i \<le> sec" using i(1,2) False len(2) by linarith+
        then have "k = ?h + int i" using mod_window_inj [of "int n" sec k "?h + int i"] k i(3) by blast
        with i(1) below show False by linarith
      qed
      then have "?bs ! nat (k mod int n) = cell r k"
        unfolding cell_def nth_fold_update [of "nat (k mod int n)" "r_buckets r" ?f, unfolded len, OF idx]
        by (simp only: if_False len)
      moreover have "?h - int n < k" "k \<le> ?h" using k below h by linarith+
      ultimately show ?thesis using old(2) by metis
    qed
    with h old(1) len show ?thesis
      by (auto simp: adv ring_inv_def cell_def length_fold_update intro: order.trans)
  qed
qed

lemma ring_tick_inv:
  assumes inv: "ring_inv n r evs" and sec: "0 < sec" "r_headSec r \<le> sec"
  shows "\<exists>r'. ring_tick sec r = Some r' \<and> ring_inv n r' (sec # evs) \<and> r_headSec r' = sec"
proof -
  let ?r = "ring_advance sec r" and ?i = "nat (sec mod int n)"
  have a: "ring_inv n ?r evs" "r_headSec ?r = sec" using ring_advance_inv [OF assms] by auto
  then have len: "length (r_buckets ?r) = n" "0 < n" by (auto simp: ring_inv_def)
  have idx: "nat (k mod int n) < n" for k using len(2) by (simp add: nat_less_iff)
  have eq: "ring_tick sec r = Some (?r\<lparr>r_buckets := (r_buckets ?r)[?i := r_buckets ?r ! ?i + 1]\<rparr>)"
    using len sec by (auto simp: ring_tick_def smod_pos Let_def not_less)
  have "(r_buckets ?r)[?i := r_buckets ?r ! ?i + 1] ! nat (k mod int n) = of_nat (count_list (sec # evs) k)"
    if k: "sec - int n < k" "k \<le> sec" for k
  proof (cases "k = sec")
    case True
    with a k sec len idx show ?thesis by (auto simp: ring_inv_def cell_def)
  next
    case False
    then have "k mod int n \<noteq> sec mod int n" using mod_window_inj [of "int n" sec k sec] k len(2) by auto
    then have "nat (k mod int n) \<noteq> ?i" using len(2) by (simp add: eq_nat_nat_iff)
    with a k sec len False show ?thesis by (auto simp: ring_inv_def cell_def)
  qed
  with a sec len have "ring_inv n (?r\<lparr>r_buckets := (r_buckets ?r)[?i := r_buckets ?r ! ?i + 1]\<rparr>) (sec # evs)"
    by (auto simp: ring_inv_def cell_def)
  with eq a show ?thesis by auto
qed

subsection \<open>The rate\<close>

fun ring_ticks :: "int list \<Rightarrow> ringCounter \<Rightarrow> ringCounter option" where
  "ring_ticks [] r = Some r"
| "ring_ticks (t # ts) r = (case ring_tick t r of None \<Rightarrow> None | Some r' \<Rightarrow> ring_ticks ts r')"

lemma ring_ticks_inv:
  "ring_inv n r evs \<Longrightarrow> sorted (r_headSec r # ts) \<Longrightarrow> \<forall>t \<in> set ts. 0 < t \<Longrightarrow>
     \<exists>r'. ring_ticks ts r = Some r' \<and> ring_inv n r' (rev ts @ evs) \<and>
          r_headSec r' = (if ts = [] then r_headSec r else last ts)"
proof (induction ts arbitrary: r evs)
  case (Cons t ts)
  then obtain r1 where r1: "ring_tick t r = Some r1" "ring_inv n r1 (t # evs)" "r_headSec r1 = t"
    using ring_tick_inv [of n r evs t] by auto
  moreover have "sorted (r_headSec r1 # ts)" "\<forall>t \<in> set ts. 0 < t" using Cons.prems r1(3) by auto
  ultimately obtain r' where r': "ring_ticks ts r1 = Some r'" "ring_inv n r' (rev ts @ t # evs)"
    "r_headSec r' = (if ts = [] then r_headSec r1 else last ts)"
    using Cons.IH by blast
  show ?case by (rule exI [of _ r']) (simp add: r1 r')
qed simp

lemma fold_add: "fold (\<lambda>i t. t + f i) xs a = a + sum_list (map f xs)" for a :: "'a::comm_monoid_add"
  by (induction xs arbitrary: a) (simp_all add: ac_simps)

lemma sum_list_of_nat: "sum_list (map (\<lambda>x. of_nat (f x)) xs) = (of_nat (sum_list (map f xs)) :: 'a::semiring_1)"
  by (induction xs) auto

lemma sum_count_window:
  "sum_list (map (\<lambda>i. count_list evs (t - int i)) [1..<n]) = length (filter (\<lambda>e. t - int n < e \<and> e < t) evs)"
proof (induction evs)
  case (Cons e evs)
  have one: "sum_list (map (\<lambda>i. if e = t - int i then 1 else 0 :: nat) [1..<m]) = (if t - int m < e \<and> e < t then 1 else 0)" for m
    by (induction m) auto
  have "sum_list (map (\<lambda>i. count_list (e # evs) (t - int i)) [1..<n]) =
      sum_list (map (\<lambda>i. (if e = t - int i then 1 else 0) + count_list evs (t - int i)) [1..<n])"
    by (rule arg_cong [where f = sum_list]) (rule map_cong, auto)
  also have "\<dots> = sum_list (map (\<lambda>i. if e = t - int i then 1 else 0) [1..<n]) +
      sum_list (map (\<lambda>i. count_list evs (t - int i)) [1..<n])" by (simp add: sum_list_addf)
  finally show ?case using one [of n] Cons by simp
qed simp

lemma count_list_le_length: "count_list xs x \<le> length xs"
  by (induction xs) auto

lemma ring_rate_window:
  assumes inv: "ring_inv n r evs" and sec: "0 < sec" "r_headSec r \<le> sec" and few: "length evs < 2 ^ 32"
  shows "fst (snd (ring_rate sec r)) = of_nat (length (filter (\<lambda>e. sec - int n < e \<and> e < sec) evs))"
proof -
  let ?r = "ring_advance sec r"
  have a: "ring_inv n ?r evs" "r_headSec ?r = sec" using ring_advance_inv [OF inv sec] by auto
  then have len: "length (r_buckets ?r) = n" "0 < n" by (auto simp: ring_inv_def)
  have "ucast (r_buckets ?r ! nat (ring_idx (sec - int i) (int n))) = (of_nat (count_list evs (sec - int i)) :: 64 word)"
    if "i \<in> set [1..<n]" for i
  proof -
    have "r_buckets ?r ! nat (ring_idx (sec - int i) (int n)) = cell ?r (sec - int i)"
      using len by (simp add: ring_idx_mod cell_def)
    also have "\<dots> = of_nat (count_list evs (sec - int i))"
      using a that sec len by (auto simp: ring_inv_def)
    finally have "r_buckets ?r ! nat (ring_idx (sec - int i) (int n)) = of_nat (count_list evs (sec - int i))" .
    moreover have "count_list evs (sec - int i) < 2 ^ 32"
      using count_list_le_length [of evs "sec - int i"] few by linarith
    ultimately show ?thesis by (simp add: unsigned_of_nat take_bit_nat_eq_self)
  qed
  then have "sum_list (map (\<lambda>i. ucast (r_buckets ?r ! nat (ring_idx (sec - int i) (int n)))) [1..<n]) =
      sum_list (map (\<lambda>i. of_nat (count_list evs (sec - int i)) :: 64 word) [1..<n])"
    by (intro arg_cong [where f = sum_list] map_cong) auto
  also have "\<dots> = of_nat (length (filter (\<lambda>e. sec - int n < e \<and> e < sec) evs))"
    unfolding sum_list_of_nat sum_count_window ..
  finally show ?thesis using len by (simp add: ring_rate_def fold_add Let_def)
qed

text \<open>
  C23: the rate is the number of events in the window. For events at non-decreasing positive
  times (fewer than \<open>2^32\<close> of them), no tick panics, and the total that \<open>rate\<close> divides by
  \<open>n - 1\<close> is the number of events in the last \<open>n - 1\<close> full seconds, without those of the current
  second and those that have left the window.
\<close>

theorem ring_rate_counts_window:
  assumes "0 < n" and "sorted ts" and "\<forall>t \<in> set ts. 0 < t \<and> t \<le> now" and "0 < now" and "length ts < 2 ^ 32"
  shows "\<exists>r. ring_ticks ts (ring_init n) = Some r \<and>
    snd (ring_rate now r) = (of_nat (length (filter (\<lambda>e. now - int n < e \<and> e < now) ts)), n - 1)"
proof -
  have "sorted (r_headSec (ring_init n) # ts)" using assms(2,3) by (auto simp: ring_init_def)
  then obtain r where r: "ring_ticks ts (ring_init n) = Some r" "ring_inv n r (rev ts)"
    "r_headSec r = (if ts = [] then 0 else last ts)"
    using ring_ticks_inv [OF ring_init_inv [OF assms(1)], of ts] assms(3) by (auto simp: ring_init_def)
  have "r_headSec r \<le> now" using r(3) assms(3,4) by auto
  moreover from this have "length (r_buckets (ring_advance now r)) = n"
    using ring_advance_inv [OF r(2) assms(4)] by (simp add: ring_inv_def)
  ultimately show ?thesis
    using ring_rate_window [OF r(2) assms(4)] r(1) assms(5)
    by (auto simp: prod_eq_iff rev_filter [symmetric]) (simp add: ring_rate_def Let_def)
qed

theorem ring_rate_counts_window_witness:
  "\<exists>r. ring_ticks [100, 100, 130, 161] (ring_init 60) = Some r \<and> snd (ring_rate 161 r) = (1, 59)"
  using ring_rate_counts_window [of 60 "[100, 100, 130, 161]" 161] by simp

end
