(* ===== verification/Stats.thy ===== *)
theory Stats
  imports Ring Complex_Main
begin

section \<open>Connection registry and counters (internal/stats/stats.go)\<close>

text \<open>
  The registry owns the live connections: a handler holds a pointer to its connection, which
  the model represents by the key of the connection in the map of the registry. Counters are
  64-bit words, as the atomic integers of the program. Instants are nanoseconds since the Unix
  epoch and every reading of the clock is an argument. The snapshot keeps instants where the
  program formats them as text, and exact rationals where it divides in floating point.
\<close>

datatype State = StateNew | StateReading | StateLookingUp | StateWriting | StateDenied | StateError | StateDone

definition State_string :: "State \<Rightarrow> string" where
  "State_string s =
     (case s of StateNew \<Rightarrow> ''new'' | StateReading \<Rightarrow> ''reading'' | StateLookingUp \<Rightarrow> ''looking_up''
      | StateWriting \<Rightarrow> ''writing'' | StateDenied \<Rightarrow> ''denied'' | StateError \<Rightarrow> ''error'' | StateDone \<Rightarrow> ''done'')"

record Conn =
  conn_ID :: "64 word"
  conn_Src :: string
  conn_started :: int
  conn_query :: string
  conn_state :: State
  conn_resultN :: int
  conn_closed :: bool
  conn_closedAt :: int
  conn_errMsg :: string
  conn_bytesIn :: "64 word"
  conn_bytesOut :: "64 word"

record snapConn =
  sc_ID :: "64 word"
  sc_Src :: string
  sc_StartedAt :: int
  sc_DurationMS :: int
  sc_State :: State
  sc_Query :: string
  sc_BytesIn :: int
  sc_BytesOut :: int
  sc_Result :: int
  sc_Error :: string
  sc_RateKBps :: rat

definition conn_Snap :: "int \<Rightarrow> Conn \<Rightarrow> snapConn" where
  "conn_Snap now c =
     (let dur = now - conn_started c
      in \<lparr>sc_ID = conn_ID c, sc_Src = conn_Src c, sc_StartedAt = conn_started c, sc_DurationMS = dur sdiv 1000000,
          sc_State = conn_state c, sc_Query = conn_query c, sc_BytesIn = sint (conn_bytesIn c),
          sc_BytesOut = sint (conn_bytesOut c), sc_Result = conn_resultN c, sc_Error = conn_errMsg c,
          sc_RateKBps = (if 0 < dur then of_int (sint (conn_bytesOut c)) / 1024 / (of_int dur / 1000000000) else 0)\<rparr>)"

definition SetState :: "State \<Rightarrow> Conn \<Rightarrow> Conn" where
  "SetState s c = c\<lparr>conn_state := s\<rparr>"

definition SetQuery :: "string \<Rightarrow> Conn \<Rightarrow> Conn" where
  "SetQuery q c = c\<lparr>conn_query := q\<rparr>"

definition SetResult :: "int \<Rightarrow> Conn \<Rightarrow> Conn" where
  "SetResult n c = c\<lparr>conn_resultN := n\<rparr>"

definition SetError :: "string \<Rightarrow> Conn \<Rightarrow> Conn" where
  "SetError msg c = c\<lparr>conn_errMsg := msg, conn_state := StateError\<rparr>"

definition AddBytesIn :: "int \<Rightarrow> Conn \<Rightarrow> Conn" where
  "AddBytesIn n c = c\<lparr>conn_bytesIn := conn_bytesIn c + word_of_int n\<rparr>"

definition AddBytesOut :: "int \<Rightarrow> Conn \<Rightarrow> Conn" where
  "AddBytesOut n c = c\<lparr>conn_bytesOut := conn_bytesOut c + word_of_int n\<rparr>"

definition Started :: "Conn \<Rightarrow> int" where
  "Started c = conn_started c"

subsection \<open>The registry\<close>

record counters =
  queriesTotal :: "64 word"
  queriesHit :: "64 word"
  queriesMiss :: "64 word"
  queriesEmpty :: "64 word"
  deniesACL :: "64 word"
  deniesRateLimit :: "64 word"
  deniesBusy :: "64 word"
  errorsRead :: "64 word"
  errorsWrite :: "64 word"
  total_bytesIn :: "64 word"
  total_bytesOut :: "64 word"
  qpsRing :: ringCounter

record Registry =
  reg_startedAt :: int
  reg_nextID :: "64 word"
  reg_conns :: "(64 word, Conn) gomap"
  reg_totals :: counters

definition NewRegistry :: "int \<Rightarrow> Registry" where
  "NewRegistry now =
     \<lparr>reg_startedAt = now, reg_nextID = 0, reg_conns = Mapping.empty,
      reg_totals = \<lparr>queriesTotal = 0, queriesHit = 0, queriesMiss = 0, queriesEmpty = 0, deniesACL = 0,
        deniesRateLimit = 0, deniesBusy = 0, errorsRead = 0, errorsWrite = 0, total_bytesIn = 0,
        total_bytesOut = 0, qpsRing = ring_init 60\<rparr>\<rparr>"

definition reg_Open :: "int \<Rightarrow> string \<Rightarrow> Registry \<Rightarrow> Registry \<times> 64 word" where
  "reg_Open now src r =
     (let cid = reg_nextID r + 1;
          c = \<lparr>conn_ID = cid, conn_Src = src, conn_started = now, conn_query = [], conn_state = StateNew,
               conn_resultN = 0, conn_closed = False, conn_closedAt = 0, conn_errMsg = [], conn_bytesIn = 0,
               conn_bytesOut = 0\<rparr>
      in (r\<lparr>reg_nextID := cid, reg_conns := Mapping.update cid c (reg_conns r)\<rparr>, cid))"

text \<open>An update of a connection through the pointer its handler holds.\<close>

definition reg_upd :: "64 word \<Rightarrow> (Conn \<Rightarrow> Conn) \<Rightarrow> Registry \<Rightarrow> Registry" where
  "reg_upd cid f r =
     (case Mapping.lookup (reg_conns r) cid of
        None \<Rightarrow> r
      | Some c \<Rightarrow> r\<lparr>reg_conns := Mapping.update cid (f c) (reg_conns r)\<rparr>)"

definition close_conn :: "int \<Rightarrow> Conn \<Rightarrow> Conn" where
  "close_conn now c =
     c\<lparr>conn_closed := True, conn_closedAt := now,
       conn_state := (if conn_state c \<noteq> StateError \<and> conn_state c \<noteq> StateDenied then StateDone else conn_state c)\<rparr>"

definition unix_sec :: "int \<Rightarrow> int" where
  "unix_sec t = t div 1000000000"

definition count_class :: "int \<Rightarrow> string \<Rightarrow> counters \<Rightarrow> counters option" where
  "count_class now classification t =
     (if classification = ''hit'' then
        map_option (\<lambda>ring. t\<lparr>queriesTotal := queriesTotal t + 1, queriesHit := queriesHit t + 1, qpsRing := ring\<rparr>)
          (ring_tick (unix_sec now) (qpsRing t))
      else if classification = ''miss'' then
        map_option (\<lambda>ring. t\<lparr>queriesTotal := queriesTotal t + 1, queriesMiss := queriesMiss t + 1, qpsRing := ring\<rparr>)
          (ring_tick (unix_sec now) (qpsRing t))
      else if classification = ''empty'' then Some (t\<lparr>queriesEmpty := queriesEmpty t + 1\<rparr>)
      else if classification = ''denied_acl'' then Some (t\<lparr>deniesACL := deniesACL t + 1\<rparr>)
      else if classification = ''denied_rate'' then Some (t\<lparr>deniesRateLimit := deniesRateLimit t + 1\<rparr>)
      else if classification = ''denied_busy'' then Some (t\<lparr>deniesBusy := deniesBusy t + 1\<rparr>)
      else if classification = ''error_read'' then Some (t\<lparr>errorsRead := errorsRead t + 1\<rparr>)
      else if classification = ''error_write'' then Some (t\<lparr>errorsWrite := errorsWrite t + 1\<rparr>)
      else Some t)"

text \<open>
  \<open>Close\<close>: the new registry and the final state of the connection. The clock is read twice, at
  \<open>now\<close> and for the tick at \<open>tnow\<close>; \<open>None\<close> is the panic of a tick at a negative time. A handler
  closes the connection it opened, once, so the identifier is always that of a live
  connection.
\<close>

definition reg_Close :: "int \<Rightarrow> int \<Rightarrow> 64 word \<Rightarrow> string \<Rightarrow> Registry \<Rightarrow> (Registry \<times> Conn option) option" where
  "reg_Close now tnow cid classification r =
     (case Mapping.lookup (reg_conns r) cid of
        None \<Rightarrow> Some (r, None)
      | Some c0 \<Rightarrow>
          (let c = close_conn now c0;
               t = reg_totals r;
               t1 = t\<lparr>total_bytesIn := total_bytesIn t + conn_bytesIn c, total_bytesOut := total_bytesOut t + conn_bytesOut c\<rparr>
           in map_option (\<lambda>t2. (r\<lparr>reg_conns := Mapping.delete cid (reg_conns r), reg_totals := t2\<rparr>, Some c))
                (count_class tnow classification t1)))"

record sCounters =
  s_QueriesTotal :: nat
  s_QueriesHit :: nat
  s_QueriesMiss :: nat
  s_QueriesEmpty :: nat
  s_DeniesACL :: nat
  s_DeniesRateLimit :: nat
  s_DeniesBusy :: nat
  s_ErrorsRead :: nat
  s_ErrorsWrite :: nat
  s_BytesIn :: int
  s_BytesOut :: int
  s_CurrentLive :: nat

record Snapshot =
  sn_Generated :: int
  sn_StartedAt :: int
  sn_UptimeSec :: rat
  sn_Live :: "snapConn list"
  sn_Counters :: sCounters
  sn_RecentQPS :: rat
  sn_RIPELoaded :: string
  sn_RIPEClasses :: "(string, int) gomap"
  sn_SourceCounts :: "(string, int) gomap"

text \<open>
  The order of the live connections is the unspecified iteration order of a Go map; the model
  lists them by identifier. Reading the rate advances the ring.
\<close>

definition reg_Snapshot :: "int \<Rightarrow> (Snapshot \<Rightarrow> Snapshot) option \<Rightarrow> Registry \<Rightarrow> Registry \<times> Snapshot" where
  "reg_Snapshot now extra r =
     (let live = List.map_filter (\<lambda>k. map_option (conn_Snap now) (Mapping.lookup (reg_conns r) k)) (Mapping.ordered_keys (reg_conns r));
          currentLive = Mapping.size (reg_conns r);
          t = reg_totals r;
          (ring, total, n) = ring_rate (unix_sec now) (qpsRing t);
          s = \<lparr>sn_Generated = now, sn_StartedAt = reg_startedAt r,
               sn_UptimeSec = of_int (now - reg_startedAt r) / 1000000000, sn_Live = live,
               sn_Counters = \<lparr>s_QueriesTotal = unat (queriesTotal t), s_QueriesHit = unat (queriesHit t),
                 s_QueriesMiss = unat (queriesMiss t), s_QueriesEmpty = unat (queriesEmpty t),
                 s_DeniesACL = unat (deniesACL t), s_DeniesRateLimit = unat (deniesRateLimit t),
                 s_DeniesBusy = unat (deniesBusy t), s_ErrorsRead = unat (errorsRead t),
                 s_ErrorsWrite = unat (errorsWrite t), s_BytesIn = sint (total_bytesIn t),
                 s_BytesOut = sint (total_bytesOut t), s_CurrentLive = currentLive\<rparr>,
               sn_RecentQPS = of_nat (unat total) / of_nat n, sn_RIPELoaded = [],
               sn_RIPEClasses = Mapping.empty, sn_SourceCounts = Mapping.empty\<rparr>
      in (r\<lparr>reg_totals := t\<lparr>qpsRing := ring\<rparr>\<rparr>, (case extra of None \<Rightarrow> s | Some f \<Rightarrow> f s)))"

end
