(* ===== verification/Stats_Props.thy ===== *)
theory Stats_Props
  imports Stats
begin

section \<open>Accounting of connections\<close>

text \<open>
  The history of a registry is a list of events: connections opened, changed by their
  handlers, closed with a classification, and snapshots. The counters are read off the
  history.
\<close>

datatype reg_event =
  EvOpen int string | EvUpd "64 word" "Conn \<Rightarrow> Conn" | EvClose int "64 word" string | EvSnap int

inductive reg_trace :: "Registry \<Rightarrow> reg_event list \<Rightarrow> Registry \<Rightarrow> bool" for r0 where
  start: "reg_trace r0 [] r0"
| opened: "reg_trace r0 es r \<Longrightarrow> reg_trace r0 (es @ [EvOpen now src]) (fst (reg_Open now src r))"
| changed: "reg_trace r0 es r \<Longrightarrow> reg_trace r0 (es @ [EvUpd cid f]) (reg_upd cid f r)"
| closed: "reg_trace r0 es r \<Longrightarrow> Mapping.lookup (reg_conns r) cid \<noteq> None \<Longrightarrow>
    reg_Close now tnow cid cl r = Some (r', c) \<Longrightarrow> reg_trace r0 (es @ [EvClose now cid cl]) r'"
| snapped: "reg_trace r0 es r \<Longrightarrow> reg_trace r0 (es @ [EvSnap now]) (fst (reg_Snapshot now extra r))"

inductive_cases reg_trace_startE: "reg_trace r0 [] r"

fun is_open :: "reg_event \<Rightarrow> bool" where
  "is_open (EvOpen _ _) = True"
| "is_open _ = False"

fun closes_as :: "string \<Rightarrow> reg_event \<Rightarrow> bool" where
  "closes_as cl (EvClose _ _ cl') = (cl' = cl)"
| "closes_as cl _ = False"

fun is_close :: "reg_event \<Rightarrow> bool" where
  "is_close (EvClose _ _ _) = True"
| "is_close _ = False"

definition n_of :: "(reg_event \<Rightarrow> bool) \<Rightarrow> reg_event list \<Rightarrow> nat" where
  "n_of P es = length (filter P es)"

lemma n_of_simps [simp]: "n_of P [] = 0" "n_of P (es @ [e]) = n_of P es + (if P e then 1 else 0)"
  by (simp_all add: n_of_def)

subsection \<open>Counters\<close>

definition counts_match :: "reg_event list \<Rightarrow> counters \<Rightarrow> bool" where
  "counts_match es t \<longleftrightarrow>
     queriesHit t = of_nat (n_of (closes_as ''hit'') es) \<and> queriesMiss t = of_nat (n_of (closes_as ''miss'') es) \<and>
     queriesTotal t = of_nat (n_of (closes_as ''hit'') es + n_of (closes_as ''miss'') es) \<and>
     queriesEmpty t = of_nat (n_of (closes_as ''empty'') es) \<and> deniesACL t = of_nat (n_of (closes_as ''denied_acl'') es) \<and>
     deniesRateLimit t = of_nat (n_of (closes_as ''denied_rate'') es) \<and>
     deniesBusy t = of_nat (n_of (closes_as ''denied_busy'') es) \<and>
     errorsRead t = of_nat (n_of (closes_as ''error_read'') es) \<and> errorsWrite t = of_nat (n_of (closes_as ''error_write'') es)"

lemma count_class_match:
  assumes "counts_match es t" "count_class tnow cl (t\<lparr>total_bytesIn := x, total_bytesOut := y\<rparr>) = Some t'"
  shows "counts_match (es @ [EvClose now cid cl]) t'"
  using assms
  by (auto simp: counts_match_def count_class_def ac_simps split: if_splits)

lemma upd_totals [simp]: "reg_totals (reg_upd cid f r) = reg_totals r"
  by (simp add: reg_upd_def split: option.splits)

lemma open_fields [simp]:
  "reg_totals (fst (reg_Open now src r)) = reg_totals r" "reg_nextID (fst (reg_Open now src r)) = reg_nextID r + 1"
  by (simp_all add: reg_Open_def Let_def)

lemma snap_fields [simp]:
  "counts_match es (reg_totals (fst (reg_Snapshot now extra r))) = counts_match es (reg_totals r)"
  "reg_conns (fst (reg_Snapshot now extra r)) = reg_conns r" "reg_nextID (fst (reg_Snapshot now extra r)) = reg_nextID r"
  by (simp_all add: reg_Snapshot_def counts_match_def Let_def split: prod.splits)

lemma counts_match_skip: "\<not> is_close e \<Longrightarrow> counts_match (es @ [e]) t = counts_match es t"
  by (cases e) (simp_all add: counts_match_def)

lemma trace_counts: "reg_trace (NewRegistry t0) es r \<Longrightarrow> counts_match es (reg_totals r)"
proof (induction rule: reg_trace.induct)
  case start
  show ?case by (simp add: counts_match_def NewRegistry_def)
next
  case (closed es r cid now tnow cl r' c)
  then show ?case
    by (auto simp: reg_Close_def Let_def split: option.splits intro!: count_class_match)
qed (simp_all add: counts_match_skip)

text \<open>
  C22: every closed connection is counted once, under its classification. After any history of
  a registry, each counter is the number of connections closed with its classification, and
  the number of queries is that of the hits and the misses (all modulo \<open>2^64\<close>, the width of the
  counters); opening, changing and observing connections changes no counter.
\<close>

theorem counters_match_history:
  assumes "reg_trace (NewRegistry t0) es r"
  shows "counts_match es (reg_totals r) \<and> queriesTotal (reg_totals r) = queriesHit (reg_totals r) + queriesMiss (reg_totals r)"
  using trace_counts [OF assms] by (simp add: counts_match_def)

lemma example_trace:
  "reg_trace (NewRegistry 0) [EvOpen 1 ''192.0.2.1''] (fst (reg_Open 1 ''192.0.2.1'' (NewRegistry 0)))"
  using reg_trace.opened [OF reg_trace.start, of "NewRegistry 0" 1 "''192.0.2.1''"] by simp

theorem counters_match_history_witness:
  "queriesTotal (reg_totals (fst (reg_Open 1 ''192.0.2.1'' (NewRegistry 0)))) = 0"
  using counters_match_history [OF example_trace] by (simp add: counts_match_def n_of_def)

subsection \<open>Live connections\<close>

definition live_ok :: "reg_event list \<Rightarrow> Registry \<Rightarrow> bool" where
  "live_ok es r \<longleftrightarrow>
     finite (Mapping.keys (reg_conns r)) \<and> unat (reg_nextID r) = n_of is_open es \<and>
     (\<forall>k \<in> Mapping.keys (reg_conns r). 1 \<le> unat k \<and> unat k \<le> n_of is_open es) \<and>
     card (Mapping.keys (reg_conns r)) + n_of is_close es = n_of is_open es"

lemma keys_upd [simp]: "Mapping.keys (reg_conns (reg_upd cid f r)) = Mapping.keys (reg_conns r)"
  by (auto simp: reg_upd_def gmap_keys split: option.splits)

lemma upd_nextID [simp]: "reg_nextID (reg_upd cid f r) = reg_nextID r"
  by (simp add: reg_upd_def split: option.splits)

lemma Close_fields:
  assumes "reg_Close now tnow cid cl r = Some (r', c)" "Mapping.lookup (reg_conns r) cid \<noteq> None"
  shows "reg_conns r' = Mapping.delete cid (reg_conns r)" "reg_nextID r' = reg_nextID r"
  using assms by (auto simp: reg_Close_def Let_def)

lemma trace_live: "reg_trace (NewRegistry t0) es r \<Longrightarrow> n_of is_open es < 2 ^ 64 \<Longrightarrow> live_ok es r"
proof (induction rule: reg_trace.induct)
  case start
  show ?case by (simp add: live_ok_def NewRegistry_def)
next
  case (opened es r now src)
  then have ok: "live_ok es r" and less: "n_of is_open es + 1 < 2 ^ 64" by simp_all
  have n: "unat (reg_nextID r + 1) = n_of is_open es + 1"
    using ok less by (simp add: live_ok_def unat_word_ariths)
  then have "reg_nextID r + 1 \<notin> Mapping.keys (reg_conns r)" using ok by (auto simp: live_ok_def)
  with ok n show ?case by (auto simp: live_ok_def reg_Open_def Let_def)
next
  case (changed es r cid f)
  then show ?case by (simp add: live_ok_def)
next
  case (closed es r cid now tnow cl r' c)
  then have ok: "live_ok es r" and cid: "cid \<in> Mapping.keys (reg_conns r)"
    by (simp_all add: gmap_keys)
  have keys: "Mapping.keys (reg_conns r') = Mapping.keys (reg_conns r) - {cid}"
    using Close_fields(1) [OF closed(3,2)] by simp
  have "card (Mapping.keys (reg_conns r) - {cid}) + 1 = card (Mapping.keys (reg_conns r))"
    using card_Suc_Diff1 [OF _ cid] ok unfolding live_ok_def by simp
  then show ?case
    using ok Close_fields(2) [OF closed(3,2)] unfolding live_ok_def keys by simp
next
  case (snapped es r now extra)
  then show ?case by (simp add: live_ok_def)
qed

text \<open>
  The registry never loses or confuses a connection. As long as fewer than \<open>2^64\<close> connections
  were opened, identifiers are never reused, and the number of live connections that a
  snapshot reports is the number of opened connections less the number of closed ones.
\<close>

theorem live_connections:
  assumes "reg_trace (NewRegistry t0) es r" and "n_of is_open es < 2 ^ 64"
  shows "s_CurrentLive (sn_Counters (snd (reg_Snapshot now None r))) + n_of is_close es = n_of is_open es \<and>
    snd (reg_Open now src r) \<notin> Mapping.keys (reg_conns r)"
proof -
  have ok: "live_ok es r" using trace_live [OF assms] .
  have "Mapping.size (reg_conns r) = card (Mapping.keys (reg_conns r))"
    using ok by (simp add: live_ok_def Mapping.size_def)
  moreover have "reg_nextID r + 1 \<notin> Mapping.keys (reg_conns r)"
  proof (cases "n_of is_open es + 1 < 2 ^ 64")
    case True
    then have "unat (reg_nextID r + 1) = n_of is_open es + 1" using ok by (simp add: live_ok_def unat_word_ariths)
    with ok show ?thesis by (auto simp: live_ok_def)
  next
    case False
    then have "n_of is_open es + 1 = 2 ^ 64" using assms(2) by simp
    then have "unat (reg_nextID r + 1) = 0" using ok by (simp add: live_ok_def unat_word_ariths)
    with ok show ?thesis by (auto simp: live_ok_def)
  qed
  ultimately show ?thesis
    using ok by (simp add: reg_Snapshot_def reg_Open_def Let_def live_ok_def split: prod.splits)
qed

theorem live_connections_witness:
  "s_CurrentLive (sn_Counters (snd (reg_Snapshot 2 None (fst (reg_Open 1 ''192.0.2.1'' (NewRegistry 0)))))) = 1"
  using live_connections [OF example_trace, of 2] by (simp add: n_of_def)

end
