(* ===== verification/Server.thy ===== *)
theory Server
  imports Query Acl_Props Ratelimit_Props Stats_Props
begin

section \<open>The WHOIS server (internal/server/server.go)\<close>

text \<open>
  Each connection is handled by a goroutine. A handler is a state machine whose phases are the
  stretches of \<open>handle\<close> between two operations on shared state or the network; \<open>h_step\<close> is one
  phase, and \<open>handle\<close> runs the phases to the end. What the world decides in a phase is its
  argument: the clock, whether the context is done, which ready case \<open>select\<close> takes, the bytes
  the client sends with the times of their arrival, and what happens to a write. The deadlines
  are the code's: a read ends at the deadline set before it, a write at the one \<open>writeReply\<close>
  sets when its timeout is positive; a call that would wait for ever leaves the handler in
  the phase \<open>PBlocked\<close>, which has no way out. The semaphore is the number of slots in use. A
  panic is \<open>None\<close>. The records that \<open>handle\<close> passes to the logger are kept in \<open>s_log\<close>.
\<close>

record server_config =
  cfg_Bind :: string
  cfg_ReadTimeout :: int
  cfg_WriteTimeout :: int
  cfg_MaxConcurrent :: int
  cfg_MaxQueryBytes :: int

record query_log =
  ql_src :: string
  ql_query :: string
  ql_state :: string
  ql_result :: string
  ql_duration_ms :: int
  ql_bytes_in :: int
  ql_bytes_out :: int

record ('f, 'l) server =
  s_cfg :: server_config
  s_store :: Manager
  s_stats :: "Registry option"
  s_acl :: BERT
  s_limiter :: "('f, 'l) Limiter option"
  s_sem :: nat
  s_log :: "query_log list"

text \<open>\<open>New\<close>: making the semaphore panics when its capacity is negative.\<close>

definition server_New ::
    "server_config \<Rightarrow> Manager \<Rightarrow> BERT \<Rightarrow> ('f, 'l) Limiter option \<Rightarrow> Registry option \<Rightarrow> ('f, 'l) server option" where
  "server_New cfg store a lm reg =
     (if cfg_MaxConcurrent cfg < 0 then None
      else Some \<lparr>s_cfg = cfg, s_store = store, s_stats = reg, s_acl = a, s_limiter = lm, s_sem = 0, s_log = []\<rparr>)"

definition SetACL :: "BERT \<Rightarrow> ('f, 'l) server \<Rightarrow> ('f, 'l) server" where
  "SetACL a s = s\<lparr>s_acl := a\<rparr>"

definition SetLimiter :: "('f, 'l) Limiter option \<Rightarrow> ('f, 'l) server \<Rightarrow> ('f, 'l) server" where
  "SetLimiter lm s = s\<lparr>s_limiter := lm\<rparr>"

subsection \<open>The remote address\<close>

text \<open>\<open>net.SplitHostPort\<close>: the host, or the empty string with an error.\<close>

definition split_host :: "string \<Rightarrow> string" where
  "split_host hp =
     (case cut_last_byte (CHR '':'') hp of
        None \<Rightarrow> []
      | Some (before, port) \<Rightarrow>
          if hp \<noteq> [] \<and> hd hp = CHR ''['' then
            (case cut_byte (CHR '']'') hp of
               None \<Rightarrow> []
             | Some (a, b) \<Rightarrow>
                 if length a + 1 \<noteq> length before then []
                 else if CHR ''['' \<in> set (drop 1 hp) \<or> CHR '']'' \<in> set b then []
                 else tl a)
          else if CHR '':'' \<in> set before \<or> CHR ''['' \<in> set hp \<or> CHR '']'' \<in> set hp then []
          else before)"

datatype remote = TCPRemote bytes string | OtherRemote string

definition remoteAddr :: "remote \<Rightarrow> addr" where
  "remoteAddr r =
     (let fallback = (\<lambda>str. case ParseAddr (split_host str) of None \<Rightarrow> NoAddr | Some a \<Rightarrow> a)
      in case r of
           TCPRemote ip str \<Rightarrow> (case AddrFromSlice ip of Some a \<Rightarrow> Unmap a | None \<Rightarrow> fallback str)
         | OtherRemote str \<Rightarrow> fallback str)"

subsection \<open>Handlers\<close>

text \<open>
  \<open>PReading\<close> carries the read deadline of the connection, if one is set, \<open>PBlocked\<close> what has gone
  out in the write that does not return. \<open>h_sent\<close> is what the writes that returned have sent.
\<close>

datatype phase =
  PSelect | PAcl | PLimit bool | PRead | PReading "int option" | PLookup | PWrite string nat | PRefuse string State
| PFinish | PReturned | PBlocked string

record handler =
  h_phase :: phase
  h_src :: addr
  h_conn :: "64 word option"
  h_class :: string
  h_holds :: bool
  h_query :: string
  h_flags :: queryFlags
  h_sent :: string

text \<open>
  The network takes a whole reply, fails after some bytes, or stalls: the client keeps the
  connection open but takes no more than so many bytes; the error is the one of a deadline.
\<close>

datatype write_outcome = WroteAll | WrotePart nat string | Stalled nat string

datatype write_end = Written | WriteError string | WriteBlocked

record step_input =
  in_now :: int
  in_tnow :: int
  in_done :: bool
  in_take_sem :: bool
  in_data :: "(int \<times> char) list"
  in_eof :: bool
  in_write :: write_outcome

text \<open>
  The bytes a read gets before the deadline. A deadline in the past fails every read at once;
  without a deadline the client may take all the time it likes.
\<close>

definition arrived :: "int \<Rightarrow> int option \<Rightarrow> (int \<times> char) list \<Rightarrow> string" where
  "arrived now deadline stream =
     (case deadline of
        None \<Rightarrow> map snd stream
      | Some d \<Rightarrow> if d \<le> now then [] else map snd (takeWhile (\<lambda>(t, _). t < d) stream))"

text \<open>
  Reading a line of at most \<open>limit\<close> bytes: the line, and whether \<open>ReadString\<close> reports an error
  (the end of the stream, the limit, or the deadline). \<open>None\<close> is a read that never returns: the
  client neither ends the line nor closes the connection, and there is no deadline.
\<close>

definition read_line :: "int \<Rightarrow> int \<Rightarrow> int option \<Rightarrow> bool \<Rightarrow> (int \<times> char) list \<Rightarrow> (string \<times> bool) option" where
  "read_line limit now deadline eof stream =
     (let got = take (nat limit) (arrived now deadline stream)
      in case cut_byte (CHR 0x0A) got of
           Some (a, _) \<Rightarrow> Some (a @ [CHR 0x0A], False)
         | None \<Rightarrow>
             if deadline = None \<and> \<not> eof \<and> int (length got) < limit then None else Some (got, True))"

definition writeReply :: "int \<Rightarrow> write_outcome \<Rightarrow> string \<Rightarrow> string \<times> write_end" where
  "writeReply d w msg =
     (case w of
        WroteAll \<Rightarrow> (msg, Written)
      | WrotePart n e \<Rightarrow> (take n msg, WriteError e)
      | Stalled n e \<Rightarrow>
          if length msg \<le> n then (msg, Written)
          else if 0 < d then (take n msg, WriteError e)
          else (take n msg, WriteBlocked))"

definition upd_conn :: "handler \<Rightarrow> (Conn \<Rightarrow> Conn) \<Rightarrow> ('f, 'l) server \<Rightarrow> ('f, 'l) server" where
  "upd_conn h f s =
     (case h_conn h of None \<Rightarrow> s | Some cid \<Rightarrow> s\<lparr>s_stats := map_option (reg_upd cid f) (s_stats s)\<rparr>)"

definition openConn :: "int \<Rightarrow> string \<Rightarrow> ('f, 'l) server \<Rightarrow> ('f, 'l) server \<times> 64 word option" where
  "openConn now src s =
     (case s_stats s of
        None \<Rightarrow> (s, None)
      | Some r \<Rightarrow> (let (r', cid) = reg_Open now src r in (s\<lparr>s_stats := Some r'\<rparr>, Some cid)))"

definition handle_start :: "int \<Rightarrow> remote \<Rightarrow> ('f, 'l) server \<Rightarrow> ('f, 'l) server \<times> handler" where
  "handle_start now r s =
     (let src = remoteAddr r; (s', conn) = openConn now (Addr_String src) s
      in (s', \<lparr>h_phase = PSelect, h_src = src, h_conn = conn, h_class = [], h_holds = False,
               h_query = [], h_flags = no_flags, h_sent = []\<rparr>))"

text \<open>Every call of \<open>replyAndCount\<close> is the last statement of \<open>handle\<close> before a return.\<close>

definition replyAndCount ::
    "write_outcome \<Rightarrow> string \<Rightarrow> State \<Rightarrow> ('f, 'l) server \<times> handler \<Rightarrow> ('f, 'l) server \<times> handler" where
  "replyAndCount w msg st x =
     (case x of (s, h) \<Rightarrow>
        let s1 = upd_conn h (SetState st) s;
            (out, werr) = writeReply (cfg_WriteTimeout (s_cfg s)) w msg
        in if werr = WriteBlocked then (s1, h\<lparr>h_phase := PBlocked out\<rparr>)
           else (upd_conn h (AddBytesOut (int (length out))) s1, h\<lparr>h_phase := PFinish, h_sent := h_sent h @ out\<rparr>))"

text \<open>The accessors of the log record; the connection is in its final state.\<close>

definition connQuery :: "int \<Rightarrow> Conn option \<Rightarrow> string" where
  "connQuery now c = (case c of None \<Rightarrow> [] | Some c \<Rightarrow> sc_Query (conn_Snap now c))"

definition connState :: "int \<Rightarrow> Conn option \<Rightarrow> string" where
  "connState now c = (case c of None \<Rightarrow> [] | Some c \<Rightarrow> State_string (sc_State (conn_Snap now c)))"

definition connStarted :: "int \<Rightarrow> Conn option \<Rightarrow> int" where
  "connStarted now c = (case c of None \<Rightarrow> now | Some c \<Rightarrow> Started c)"

definition connBytesIn :: "int \<Rightarrow> Conn option \<Rightarrow> int" where
  "connBytesIn now c = (case c of None \<Rightarrow> 0 | Some c \<Rightarrow> sc_BytesIn (conn_Snap now c))"

definition connBytesOut :: "int \<Rightarrow> Conn option \<Rightarrow> int" where
  "connBytesOut now c = (case c of None \<Rightarrow> 0 | Some c \<Rightarrow> sc_BytesOut (conn_Snap now c))"

text \<open>The deferred calls, in the reverse of their order in the code.\<close>

definition finish :: "step_input \<Rightarrow> ('f, 'l) server \<Rightarrow> handler \<Rightarrow> (('f, 'l) server \<times> handler) option" where
  "finish i s h =
     (let s1 = (if h_holds h then s\<lparr>s_sem := s_sem s - 1\<rparr> else s);
          closed = (case (h_conn h, s_stats s1) of
                      (Some cid, Some r) \<Rightarrow>
                        map_option (\<lambda>(r', c). (s1\<lparr>s_stats := Some r'\<rparr>, c)) (reg_Close (in_now i) (in_tnow i) cid (h_class h) r)
                    | _ \<Rightarrow> Some (s1, None))
      in case closed of
           None \<Rightarrow> None
         | Some (s2, c) \<Rightarrow>
             Some (s2\<lparr>s_log := s_log s2 @ [\<lparr>ql_src = Addr_String (h_src h), ql_query = connQuery (in_now i) c,
                     ql_state = connState (in_now i) c, ql_result = h_class h,
                     ql_duration_ms = (in_now i - connStarted (in_now i) c) sdiv 1000000,
                     ql_bytes_in = connBytesIn (in_now i) c, ql_bytes_out = connBytesOut (in_now i) c\<rparr>]\<rparr>,
                   h\<lparr>h_phase := PReturned, h_holds := False\<rparr>))"

abbreviation msg_busy :: string where "msg_busy \<equiv> ''%% server busy, try again'' @ [CHR 0x0A]"
abbreviation msg_denied :: string where "msg_denied \<equiv> ''%% access denied by policy'' @ [CHR 0x0A]"
abbreviation msg_rate :: string where "msg_rate \<equiv> ''%% rate limit exceeded'' @ [CHR 0x0A]"
abbreviation msg_empty :: string where "msg_empty \<equiv> ''%% empty query'' @ [CHR 0x0A]"

definition step_select :: "step_input \<Rightarrow> ('f, 'l) server \<Rightarrow> handler \<Rightarrow> ('f, 'l) server \<times> handler" where
  "step_select i s h =
     (let free = (int (s_sem s) < cfg_MaxConcurrent (s_cfg s)) in
      if free \<and> (\<not> in_done i \<or> in_take_sem i) then (s\<lparr>s_sem := s_sem s + 1\<rparr>, h\<lparr>h_phase := PAcl, h_holds := True\<rparr>)
      else if in_done i then (s, h\<lparr>h_phase := PFinish, h_class := ''error_read''\<rparr>)
      else (s, h\<lparr>h_phase := PRefuse msg_busy StateDenied, h_class := ''denied_busy''\<rparr>))"

definition step_acl :: "('f, 'l) server \<Rightarrow> handler \<Rightarrow> handler" where
  "step_acl s h =
     (let (act, explicit) = MatchExplicit (s_acl s) (h_src h) in
      if act = ActionDeny then h\<lparr>h_phase := PRefuse msg_denied StateDenied, h_class := ''denied_acl''\<rparr>
      else h\<lparr>h_phase := PLimit (explicit \<and> act = ActionAllow)\<rparr>)"

definition step_limit ::
    "('f, 'l) rate_pkg \<Rightarrow> step_input \<Rightarrow> bool \<Rightarrow> ('f, 'l) server \<Rightarrow> handler \<Rightarrow> ('f, 'l) server \<times> handler" where
  "step_limit pkg i bypassRate s h =
     (case s_limiter s of
        None \<Rightarrow> (s, h\<lparr>h_phase := PRead\<rparr>)
      | Some lm \<Rightarrow>
          if bypassRate then (s, h\<lparr>h_phase := PRead\<rparr>)
          else let (lm', ok) = limiter_Allow pkg (in_now i) (h_src h) lm;
                   s1 = s\<lparr>s_limiter := Some lm'\<rparr>
               in if \<not> ok then (s1, h\<lparr>h_phase := PRefuse msg_rate StateDenied, h_class := ''denied_rate''\<rparr>)
                  else (s1, h\<lparr>h_phase := PRead\<rparr>))"

text \<open>The read deadline counts from the moment it is set, not from the first byte.\<close>

definition step_deadline :: "step_input \<Rightarrow> ('f, 'l) server \<Rightarrow> handler \<Rightarrow> ('f, 'l) server \<times> handler" where
  "step_deadline i s h =
     (upd_conn h (SetState StateReading) s, h\<lparr>h_phase := PReading (Some (in_now i + cfg_ReadTimeout (s_cfg s)))\<rparr>)"

definition step_read :: "step_input \<Rightarrow> int option \<Rightarrow> ('f, 'l) server \<Rightarrow> handler \<Rightarrow> ('f, 'l) server \<times> handler" where
  "step_read i deadline s h =
     (case read_line (cfg_MaxQueryBytes (s_cfg s)) (in_now i) deadline (in_eof i) (in_data i) of
        None \<Rightarrow> (s, h\<lparr>h_phase := PBlocked []\<rparr>)
      | Some (line, err) \<Rightarrow>
          (let s1 = upd_conn h (AddBytesIn (int (length line))) s
           in if err \<and> line = [] then (s1, h\<lparr>h_phase := PFinish, h_class := ''error_read''\<rparr>)
              else let (query, flags) = parseQuery line;
                       s2 = upd_conn h (SetQuery query) s1
                   in if query = [] then (s2, h\<lparr>h_phase := PRefuse msg_empty StateDone, h_class := ''empty''\<rparr>)
                      else (s2, h\<lparr>h_phase := PLookup, h_query := query, h_flags := flags\<rparr>)))"

definition step_lookup :: "unicode \<Rightarrow> ('f, 'l) server \<Rightarrow> handler \<Rightarrow> ('f, 'l) server \<times> handler" where
  "step_lookup u s h =
     (let s1 = upd_conn h (SetState StateLookingUp) s;
          (resp, nObjects) = answer u (s_store s1) (h_query h) (h_flags h);
          s2 = upd_conn h (SetState StateWriting) (upd_conn h (SetResult (int nObjects)) s1)
      in (s2, h\<lparr>h_phase := PWrite resp nObjects\<rparr>))"

definition step_write :: "step_input \<Rightarrow> string \<Rightarrow> nat \<Rightarrow> ('f, 'l) server \<Rightarrow> handler \<Rightarrow> ('f, 'l) server \<times> handler" where
  "step_write i resp nObjects s h =
     (let (out, werr) = writeReply (cfg_WriteTimeout (s_cfg s)) (in_write i) resp;
          s1 = upd_conn h (AddBytesOut (int (length out))) s;
          h1 = h\<lparr>h_phase := PFinish, h_sent := h_sent h @ out\<rparr>
      in case werr of
           WriteBlocked \<Rightarrow> (s, h\<lparr>h_phase := PBlocked out\<rparr>)
         | WriteError e \<Rightarrow> (upd_conn h (SetError e) s1, h1\<lparr>h_class := ''error_write''\<rparr>)
         | Written \<Rightarrow> (s1, h1\<lparr>h_class := (if nObjects = 0 then ''miss'' else ''hit'')\<rparr>))"

definition h_step ::
    "unicode \<Rightarrow> ('f, 'l) rate_pkg \<Rightarrow> step_input \<Rightarrow> ('f, 'l) server \<times> handler \<Rightarrow> (('f, 'l) server \<times> handler) option" where
  "h_step u pkg i x =
     (case x of (s, h) \<Rightarrow>
        (case h_phase h of
           PSelect \<Rightarrow> Some (step_select i s h)
         | PAcl \<Rightarrow> Some (s, step_acl s h)
         | PLimit bypassRate \<Rightarrow> Some (step_limit pkg i bypassRate s h)
         | PRead \<Rightarrow> Some (step_deadline i s h)
         | PReading deadline \<Rightarrow> Some (step_read i deadline s h)
         | PLookup \<Rightarrow> Some (step_lookup u s h)
         | PWrite resp nObjects \<Rightarrow> Some (step_write i resp nObjects s h)
         | PRefuse msg st \<Rightarrow> Some (replyAndCount (in_write i) msg st (s, h))
         | PFinish \<Rightarrow> finish i s h
         | PReturned \<Rightarrow> Some (s, h)
         | PBlocked out \<Rightarrow> Some (s, h)))"

fun h_run ::
    "unicode \<Rightarrow> ('f, 'l) rate_pkg \<Rightarrow> step_input list \<Rightarrow> ('f, 'l) server \<times> handler \<Rightarrow> (('f, 'l) server \<times> handler) option" where
  "h_run u pkg [] x = Some x"
| "h_run u pkg (i # is) x = (case h_step u pkg i x of None \<Rightarrow> None | Some y \<Rightarrow> h_run u pkg is y)"

text \<open>A connection handled without interruption: eight phases are enough.\<close>

definition handle ::
    "unicode \<Rightarrow> ('f, 'l) rate_pkg \<Rightarrow> int \<Rightarrow> remote \<Rightarrow> step_input list \<Rightarrow> ('f, 'l) server \<Rightarrow> (('f, 'l) server \<times> handler) option" where
  "handle u pkg now r is s = h_run u pkg (take 8 is) (handle_start now r s)"

end
