(* ===== verification/Query_Props.thy ===== *)
theory Query_Props
  imports Query
begin

section \<open>Properties of queries and answers\<close>

text \<open>
  The parser of the query line splits it into words and flags whatever the blanks between
  them; the answer is described by the list of objects it contains; and a plain address query
  is answered by a most specific object.
\<close>

subsection \<open>The query line\<close>

definition plain :: "string \<Rightarrow> bool" where
  "plain t \<longleftrightarrow> t \<noteq> [] \<and> list_all (\<lambda>c. byte c < 128 \<and> \<not> ascii_space c) t"

definition blank :: "string \<Rightarrow> bool" where
  "blank s \<longleftrightarrow> list_all ascii_space s"

text \<open>A word followed by other words, each after some blanks.\<close>

definition spaced :: "string \<Rightarrow> (string \<times> string) list \<Rightarrow> string" where
  "spaced t ps = t @ concat (map (\<lambda>(s, t). s @ t) ps)"

lemma plain_ends:
  "plain t \<Longrightarrow> byte (hd t) < 128 \<and> \<not> ascii_space (hd t) \<and> byte (last t) < 128 \<and> \<not> ascii_space (last t)"
  by (auto simp: plain_def list_all_iff)

lemma fields_plain: "list_all (\<lambda>c. byte c < 128 \<and> \<not> ascii_space c) t \<Longrightarrow> fields_from acc (t @ s) = fields_from (rev t @ acc) s"
  by (induction t arbitrary: acc) simp_all

lemma fields_blank_Cons: "ascii_space c \<Longrightarrow> fields_from acc (c # s) = (if acc = [] then [] else [rev acc]) @ fields_from [] s"
  by simp

lemma fields_blank: "blank b \<Longrightarrow> fields_from [] (b @ s) = fields_from [] s"
  unfolding blank_def by (induction b) (simp_all add: fields_blank_Cons del: fields_from.simps(2))

lemma fields_words:
  assumes "plain t" "list_all (\<lambda>(b, w). b \<noteq> [] \<and> blank b \<and> plain w) ps"
  shows "fields_from [] (spaced t ps) = t # map snd ps"
  using assms
proof (induction ps arbitrary: t)
  case Nil
  then show ?case using fields_plain [of t "[]" "[]"] by (simp add: spaced_def plain_def)
next
  case (Cons p ps)
  obtain b w where p: "p = (b, w)" by fastforce
  obtain c b' where b: "b = c # b'" "ascii_space c" "blank b'"
    using Cons.prems p by (cases b) (auto simp: blank_def)
  have "fields_from [] (spaced t (p # ps)) = fields_from (rev t) (c # b' @ spaced w ps)"
    using Cons.prems fields_plain [of t "[]"] by (simp add: spaced_def p b plain_def del: fields_from.simps(2))
  also have "\<dots> = t # fields_from [] (b' @ spaced w ps)"
    using Cons.prems by (simp add: fields_blank_Cons [OF b(2)] plain_def del: fields_from.simps(2))
  also have "\<dots> = t # w # map snd ps"
    using Cons p by (simp add: fields_blank [OF b(3)])
  finally show ?case by (simp add: p)
qed

lemma spaced_ends:
  assumes "plain t" "list_all (\<lambda>(b, w). b \<noteq> [] \<and> blank b \<and> plain w) ps"
  shows "spaced t ps \<noteq> []" "hd (spaced t ps) = hd t" "last (spaced t ps) = last (last (t # map snd ps))"
proof -
  have "t \<noteq> []" using assms(1) by (simp add: plain_def)
  then show "spaced t ps \<noteq> []" "hd (spaced t ps) = hd t" by (simp_all add: spaced_def)
  show "last (spaced t ps) = last (last (t # map snd ps))"
  proof (cases ps rule: rev_cases)
    case (snoc qs q)
    then have "snd q \<noteq> []" using assms(2) by (auto simp: plain_def)
    with snoc show ?thesis by (cases q) (simp add: spaced_def)
  qed (simp add: spaced_def)
qed

lemma TrimRight_core: "s \<noteq> [] \<Longrightarrow> last s \<notin> set cs \<Longrightarrow> TrimRight (a @ s @ b) cs = a @ s @ TrimRight b cs"
proof -
  assume s: "s \<noteq> []" "last s \<notin> set cs"
  then obtain s' c where sc: "s = s' @ [c]" "c \<notin> set cs" by (cases s rule: rev_cases) auto
  show ?thesis
  proof (cases "\<forall>x \<in> set b. x \<in> set cs")
    case True
    then show ?thesis using sc by (simp add: TrimRight_def dropWhile_append)
  next
    case False
    then show ?thesis using sc by (auto simp: TrimRight_def dropWhile_append)
  qed
qed

lemma TrimRight_blank: "blank b \<Longrightarrow> blank (TrimRight b cs)"
  by (auto simp: TrimRight_def blank_def list_all_iff dest: set_dropWhileD)

lemma set_flag_fold:
  "abuseContact (fold set_flag cs f) = (abuseContact f \<or> CHR ''b'' \<in> set cs)"
  "primaryOnly (fold set_flag cs f) = (primaryOnly f \<or> CHR ''r'' \<in> set cs)"
  "exactMatch (fold set_flag cs f) = (exactMatch f \<or> CHR ''x'' \<in> set cs)"
  "moreSpecific (fold set_flag cs f) = (moreSpecific f \<or> CHR ''m'' \<in> set cs \<or> CHR ''M'' \<in> set cs)"
  "lessSpecific (fold set_flag cs f) = (lessSpecific f \<or> CHR ''l'' \<in> set cs \<or> CHR ''L'' \<in> set cs)"
  by (induction cs arbitrary: f) (auto simp: set_flag_def)

definition is_flag :: "string \<Rightarrow> bool" where
  "is_flag t \<longleftrightarrow> HasPrefix t ''-''"

lemma parse_tokens_eq:
  "parse_tokens ts rest f =
     (rest @ filter (\<lambda>t. \<not> is_flag t) ts, fold set_flag (concat (map tl (filter is_flag ts))) f)"
  by (induction ts arbitrary: rest f) (simp_all add: is_flag_def)

lemma parseQuery_words:
  assumes "plain t" "list_all (\<lambda>(b, w). b \<noteq> [] \<and> blank b \<and> plain w) ps" "blank a" "blank z"
  shows "parseQuery (a @ spaced t ps @ z) =
    (Join (filter (\<lambda>w. \<not> is_flag w) (t # map snd ps)) '' '',
     fold set_flag (concat (map tl (filter is_flag (t # map snd ps)))) no_flags)"
proof -
  let ?cs = "[CHR 0x0D, CHR 0x0A]"
  note e = spaced_ends [OF assms(1,2)]
  have "plain (last (t # map snd ps))"
    using assms(1,2) by (cases ps rule: rev_cases) auto
  then have l: "byte (last (spaced t ps)) < 128" "\<not> ascii_space (last (spaced t ps))"
    and h: "byte (hd (spaced t ps)) < 128" "\<not> ascii_space (hd (spaced t ps))"
    using plain_ends assms(1) e(2,3) by auto
  have "last (spaced t ps) \<notin> set ?cs" using l(2) by (auto simp: ascii_space_def)
  then have "TrimRight (a @ spaced t ps @ z) ?cs = a @ spaced t ps @ TrimRight z ?cs"
    by (rule TrimRight_core [OF e(1)])
  moreover have "TrimSpace (a @ spaced t ps @ TrimRight z ?cs) = spaced t ps"
    using TrimRight_blank [OF assms(4)] assms(3) e(1) h l by (intro TrimSpace_core) (simp_all add: blank_def)
  ultimately show ?thesis
    using e(1) fields_words [OF assms(1,2)] unfolding parseQuery_def Let_def Fields_def by (simp add: parse_tokens_eq)
qed

text \<open>
  C34: the query line. Whatever blanks surround and separate its words, with or without a line
  end, the query is the words that do not start with a dash, joined by one space, and a flag
  is set exactly when one of its letters occurs in a word that starts with a dash.
\<close>

theorem query_line_parsed:
  assumes "plain t" and "list_all (\<lambda>(b, w). b \<noteq> [] \<and> blank b \<and> plain w) ps" and "blank a" and "blank z"
    and "letters = concat (map tl (filter is_flag (t # map snd ps)))"
  shows "parseQuery (a @ spaced t ps @ z) =
    (Join (filter (\<lambda>w. \<not> is_flag w) (t # map snd ps)) '' '',
     \<lparr>abuseContact = (CHR ''b'' \<in> set letters), primaryOnly = (CHR ''r'' \<in> set letters),
      exactMatch = (CHR ''x'' \<in> set letters), moreSpecific = (CHR ''m'' \<in> set letters \<or> CHR ''M'' \<in> set letters),
      lessSpecific = (CHR ''l'' \<in> set letters \<or> CHR ''L'' \<in> set letters)\<rparr>)"
proof -
  have "fold set_flag letters no_flags = \<lparr>abuseContact = (CHR ''b'' \<in> set letters), primaryOnly = (CHR ''r'' \<in> set letters),
      exactMatch = (CHR ''x'' \<in> set letters), moreSpecific = (CHR ''m'' \<in> set letters \<or> CHR ''M'' \<in> set letters),
      lessSpecific = (CHR ''l'' \<in> set letters \<or> CHR ''L'' \<in> set letters)\<rparr>"
    by (rule queryFlags.equality) (simp_all add: set_flag_fold no_flags_def)
  then show ?thesis using parseQuery_words [OF assms(1-4)] assms(5) by simp
qed

theorem query_line_parsed_witness:
  "parseQuery (''  -rL   AS3333'' @ [CHR 0x0D, CHR 0x0A]) =
     (''AS3333'', \<lparr>abuseContact = False, primaryOnly = True, exactMatch = False, moreSpecific = False, lessSpecific = True\<rparr>)"
proof -
  have "plain ''-rL''" "list_all (\<lambda>(b, w). b \<noteq> [] \<and> blank b \<and> plain w) [(''   '', ''AS3333'')]"
    "blank ''  ''" "blank [CHR 0x0D, CHR 0x0A]"
    by (simp_all add: plain_def blank_def ascii_space_def)
  from query_line_parsed [OF this refl] show ?thesis by (simp add: spaced_def is_flag_def HasPrefix_def)
qed

subsection \<open>The objects of an answer\<close>

definition norm_handle :: "unicode \<Rightarrow> string \<Rightarrow> string" where
  "norm_handle u h = ToUpper u (TrimSpace h)"

definition handles_of :: "Object list \<Rightarrow> string list" where
  "handles_of objs = concat (map (\<lambda>ob. concat (map (\<lambda>slot. Handles ob ! slot) [0..<4])) objs)"

text \<open>The first occurrences of the non-empty normalised handles.\<close>

fun fresh_handles :: "unicode \<Rightarrow> string set \<Rightarrow> string list \<Rightarrow> string list" where
  "fresh_handles u seen [] = []"
| "fresh_handles u seen (h # hs) =
     (if norm_handle u h = [] \<or> norm_handle u h \<in> seen then fresh_handles u seen hs
      else norm_handle u h # fresh_handles u (insert (norm_handle u h) seen) hs)"

lemma fresh_handles_set: "set (fresh_handles u seen hs) = norm_handle u ` set hs - insert [] seen"
  by (induction hs arbitrary: seen) auto

lemma fresh_handles_distinct: "distinct (fresh_handles u seen hs)"
  by (induction hs arbitrary: seen) (auto simp: fresh_handles_set)

definition related_objects :: "unicode \<Rightarrow> Store \<Rightarrow> Object list \<Rightarrow> Object list" where
  "related_objects u st objs = concat (map (store_Lookup u st) (fresh_handles u {} (handles_of objs)))"

lemma related_loop_eq:
  "related_loop u st hs seen b n =
     (let R = concat (map (store_Lookup u st) (fresh_handles u seen hs))
      in (b @ concat (map (\<lambda>r. CHR 0x0A # write_raw r) R), n + length R))"
  by (induction hs arbitrary: seen b n) (simp_all add: norm_handle_def Let_def)

lemma writeRelated_eq:
  "writeRelated u st objs b =
     (b @ concat (map (\<lambda>r. CHR 0x0A # write_raw r) (related_objects u st objs)), length (related_objects u st objs))"
  by (simp add: writeRelated_def related_loop_eq related_objects_def handles_of_def Let_def)

lemma write_picked_later: "i > 0 \<Longrightarrow> write_picked i obs = concat (map (\<lambda>r. CHR 0x0A # write_raw r) obs)"
  by (induction obs arbitrary: i) simp_all

lemma write_picked_append:
  "obs \<noteq> [] \<Longrightarrow> write_picked 0 (obs @ rs) = write_picked 0 obs @ concat (map (\<lambda>r. CHR 0x0A # write_raw r) rs)"
  by (cases obs) (simp_all add: write_picked_later)

lemma pick_facts: "objs \<noteq> [] \<Longrightarrow> pick q objs flags \<noteq> []" "set (pick q objs flags) \<subseteq> set objs"
proof -
  show "pick q objs flags \<noteq> []" if "objs \<noteq> []"
    using that by (cases objs rule: rev_cases) (simp_all add: pick_def)
  show "set (pick q objs flags) \<subseteq> set objs"
    by (auto simp: pick_def dest: in_set_takeD in_set_dropD)
qed

text \<open>The objects of an answer, in order.\<close>

definition answer_objects :: "unicode \<Rightarrow> Store \<Rightarrow> string \<Rightarrow> queryFlags \<Rightarrow> Object list" where
  "answer_objects u st q flags =
     (let picked = pick q (store_Lookup u st q) flags
      in picked @ (if primaryOnly flags then [] else related_objects u st picked))"

lemma answer_eq:
  "answer u m q flags =
     (let objs = answer_objects u (Current m) q flags
      in (if objs = [] then no_entries q else banner @ write_picked 0 objs, length objs))"
proof (cases "store_Lookup u (Current m) q = []")
  case True
  then show ?thesis by (simp add: answer_def answer_objects_def pick_def related_objects_def handles_of_def)
next
  case False
  then have "pick q (store_Lookup u (Current m) q) flags \<noteq> []" by (rule pick_facts)
  with False show ?thesis
    by (simp add: answer_def answer_objects_def Let_def writeRelated_eq write_picked_append)
qed

text \<open>
  C8: an answer is determined by a list of objects. It is the banner and the texts of these
  objects, separated by blank lines, and their number; without objects it is the message that
  nothing was found. The list starts with the picked results of the lookup and, unless the
  client asked for primary objects only, goes on with the results of looking up every
  different contact handle of the picked objects once, in upper case. It is empty exactly
  when the lookup finds nothing, so the connection is counted as a hit exactly when the
  query has a result.
\<close>

theorem answer_is_object_list:
  "let picked = pick q (store_Lookup u (Current m) q) flags in
     \<exists>hs. distinct hs \<and> set hs = (\<lambda>h. ToUpper u (TrimSpace h)) ` set (handles_of picked) - {[]} \<and>
       (let objs = picked @ (if primaryOnly flags then [] else concat (map (store_Lookup u (Current m)) hs)) in
        answer u m q flags = (if objs = [] then no_entries q else banner @ write_picked 0 objs, length objs) \<and>
        (objs = [] \<longleftrightarrow> store_Lookup u (Current m) q = []))"
proof -
  define picked where "picked = pick q (store_Lookup u (Current m) q) flags"
  let ?hs = "fresh_handles u {} (handles_of picked)"
  have "set ?hs = (\<lambda>h. ToUpper u (TrimSpace h)) ` set (handles_of picked) - {[]}"
    by (simp add: fresh_handles_set norm_handle_def)
  moreover have "answer_objects u (Current m) q flags = [] \<longleftrightarrow> store_Lookup u (Current m) q = []"
    using pick_facts(1) [where objs = "store_Lookup u (Current m) q" and q = q and flags = flags]
    by (auto simp: answer_objects_def Let_def pick_def related_objects_def handles_of_def)
  ultimately show ?thesis
    using answer_eq [of u m q flags] fresh_handles_distinct [of u "{}" "handles_of picked"]
    unfolding Let_def picked_def answer_objects_def related_objects_def by blast
qed

subsection \<open>Address queries\<close>

lemma sort_key_ends:
  assumes "xs \<noteq> []" "x \<in> set xs"
  shows "f x \<le> (f (last (sort_key f xs)) :: 'k :: linorder)" "f (hd (sort_key f xs)) \<le> f x"
proof -
  let ?ys = "sort_key f xs"
  have "x \<in> set ?ys" using assms(2) by simp
  then obtain i where i: "i < length ?ys" "x = ?ys ! i" by (metis in_set_conv_nth)
  have s: "sorted (map f ?ys)" by simp
  have "last ?ys = ?ys ! (length ?ys - 1)" "hd ?ys = ?ys ! 0"
    using i(1) by (simp_all only: last_conv_nth hd_conv_nth length_greater_0_conv [symmetric])
  moreover have "0 < length ?ys" using i(1) by linarith
  then have "map f ?ys ! 0 = f (?ys ! 0)" by (rule nth_map)
  ultimately show "f x \<le> f (last ?ys)" "f (hd ?ys) \<le> f x"
    using i sorted_nth_mono [OF s, of i "length ?ys - 1"] sorted_nth_mono [OF s, of 0 i] by simp_all
qed

lemma Lookup_addr:
  assumes "query_addr q = Some a" "TrimSpace q = q"
  shows "store_Lookup u (store_of u ins) q = covering (entries (if Is4 a then prefixes4 else prefixes6) ins) a"
proof -
  have "query_addr [] = None" by code_simp
  then have "q \<noteq> []" using assms(1) by auto
  with assms show ?thesis by (simp add: store_Lookup_spec spec_Lookup_def)
qed

text \<open>
  C9: address queries. For a store built by \<open>Insert\<close>, a plain query for an address (or for the
  address of a prefix) picks one object with a longest prefix among those that cover the
  address, if any does. The flag \<open>-l\<close> picks one with a shortest prefix, and \<open>-m\<close> picks all
  objects that cover the address, which are the less specific ones.
\<close>

theorem address_query_picks:
  assumes "query_addr q = Some a" and "TrimSpace q = q"
    and "es = filter (\<lambda>e. covers (fst e) a) (entries (if Is4 a then prefixes4 else prefixes6) ins)"
    and "picked = pick q (store_Lookup u (store_of u ins) q) flags"
  shows "if moreSpecific flags then mset picked = mset (map snd es)
    else if es = [] then picked = []
    else \<exists>e \<in> set es. picked = [snd e] \<and>
      (if lessSpecific flags then \<forall>e' \<in> set es. depth128 (fst e) \<le> depth128 (fst e')
       else \<forall>e' \<in> set es. depth128 (fst e') \<le> depth128 (fst e))"
proof -
  let ?ys = "sort_key (\<lambda>e. depth128 (fst e)) es"
  have picked: "picked = pick q (map snd ?ys) flags"
    using assms(3,4) Lookup_addr [OF assms(1,2)] by (simp add: covering_def)
  have addr: "\<not> (ParsePrefix q = None \<and> ParseAddr q = None)"
    using assms(1) by (auto simp: query_addr_def)
  show ?thesis
  proof (cases "es = []")
    case True
    then show ?thesis using picked by (simp add: pick_def)
  next
    case False
    then have ne: "?ys \<noteq> []" by (metis set_empty set_sort)
    have "hd ?ys \<in> set es" "last ?ys \<in> set es"
      using hd_in_set [OF ne] last_in_set [OF ne] by simp_all
    moreover have "take 1 (map snd ?ys) = [snd (hd ?ys)]" using ne by (cases ?ys) simp_all
    moreover have "drop (length ?ys - 1) (map snd ?ys) = [snd (last ?ys)]"
      using ne by (cases ?ys rule: rev_cases) simp_all
    moreover have "mset (map snd ?ys) = mset (map snd es)" by (simp only: mset_map mset_sort)
    ultimately show ?thesis
      using False ne addr sort_key_ends [OF False, of _ "\<lambda>e. depth128 (fst e)"]
      unfolding picked pick_def by (auto simp del: length_sort)
  qed
qed

definition ascii_unicode :: unicode where
  "ascii_unicode = \<lparr>uni_upper = id, uni_lower = id\<rparr>"

theorem address_query_picks_witness:
  "pick ''193.0.1.1'' (store_Lookup ascii_unicode (store_of ascii_unicode [(inetnum_example, ''RIPE'')]) ''193.0.1.1'') no_flags = [inetnum_example]"
proof -
  have q: "query_addr ''193.0.1.1'' = Some (V4 0xC1000101)" "TrimSpace ''193.0.1.1'' = ''193.0.1.1''" by code_simp+
  have e: "filter (\<lambda>e. covers (fst e) (V4 0xC1000101))
      (entries (if Is4 (V4 0xC1000101) then prefixes4 else prefixes6) [(inetnum_example, ''RIPE'')]) =
      [(Prefix (V4 0xC1000000) 21, inetnum_example)]"
    by code_simp
  from address_query_picks [OF q e [symmetric] refl, where u = ascii_unicode and flags = no_flags]
  show ?thesis by (simp add: no_flags_def)
qed

end
