(* ===== verification/Server_Props.thy ===== *)
theory Server_Props
  imports Server Query_Props
begin

section \<open>Concurrent connections\<close>

text \<open>
  The system is the server with all the handlers it ever started. Its steps are a new
  connection, one phase of one handler, and what other goroutines do to the shared state: a
  new store, access list or limiter, garbage collection of the limiter, and a snapshot of the
  statistics. The invariants hold under every interleaving of these steps.
\<close>

inductive srv_step ::
    "unicode \<Rightarrow> ('f, 'l) rate_pkg \<Rightarrow> ('f, 'l) server \<times> handler list \<Rightarrow> ('f, 'l) server \<times> handler list \<Rightarrow> bool" for u pkg where
  accepted: "handle_start now r s = (s', h) \<Longrightarrow> srv_step u pkg (s, hs) (s', hs @ [h])"
| phase: "i < length hs \<Longrightarrow> h_step u pkg inp (s, hs ! i) = Some (s', h') \<Longrightarrow> srv_step u pkg (s, hs) (s', hs[i := h'])"
| new_store: "srv_step u pkg (s, hs) (s\<lparr>s_store := m\<rparr>, hs)"
| new_acl: "srv_step u pkg (s, hs) (SetACL a s, hs)"
| new_limiter: "srv_step u pkg (s, hs) (SetLimiter l s, hs)"
| collected: "srv_step u pkg (s, hs) (s\<lparr>s_limiter := map_option (gc_tick now) (s_limiter s)\<rparr>, hs)"
| observed: "srv_step u pkg (s, hs) (s\<lparr>s_stats := map_option (\<lambda>r. fst (reg_Snapshot now extra r)) (s_stats s)\<rparr>, hs)"

inductive_simps srv_step_pair: "srv_step u pkg (s, hs) y"

inductive srv_reach :: "unicode \<Rightarrow> ('f, 'l) rate_pkg \<Rightarrow> ('f, 'l) server \<Rightarrow> ('f, 'l) server \<times> handler list \<Rightarrow> bool" for u pkg s0 where
  init: "srv_reach u pkg s0 (s0, [])"
| step: "srv_reach u pkg s0 x \<Longrightarrow> srv_step u pkg x y \<Longrightarrow> srv_reach u pkg s0 y"

subsection \<open>One phase\<close>

text \<open>What a handler has sent, by the classification of its connection.\<close>

definition refusal :: "string \<Rightarrow> string option" where
  "refusal cl =
     (if cl = ''denied_busy'' then Some msg_busy else if cl = ''denied_acl'' then Some msg_denied
      else if cl = ''denied_rate'' then Some msg_rate else if cl = ''empty'' then Some msg_empty
      else if cl = ''error_read'' \<or> cl = [] then Some [] else None)"

definition served :: "string \<Rightarrow> bool" where
  "served cl \<longleftrightarrow> cl = ''hit'' \<or> cl = ''miss'' \<or> cl = ''error_write''"

definition handler_ok :: "handler \<Rightarrow> bool" where
  "handler_ok h \<longleftrightarrow>
     (case h_phase h of
        PSelect \<Rightarrow> \<not> h_holds h \<and> h_class h = [] \<and> h_sent h = []
      | PRefuse msg st \<Rightarrow> h_sent h = [] \<and> refusal (h_class h) = Some msg \<and> (h_holds h \<or> h_class h = ''denied_busy'')
      | PFinish \<Rightarrow> h_holds h \<or> h_class h = ''denied_busy'' \<or> h_class h = ''error_read''
      | PReturned \<Rightarrow> \<not> h_holds h
      | PBlocked out \<Rightarrow> h_sent h = [] \<and> (h_holds h \<or> h_class h = ''denied_busy'') \<and>
          (h_class h \<noteq> [] \<longrightarrow> (\<exists>msg. refusal (h_class h) = Some msg \<and> prefix out msg))
      | _ \<Rightarrow> h_holds h \<and> h_class h = [] \<and> h_sent h = []) \<and>
     (case refusal (h_class h) of Some msg \<Rightarrow> prefix (h_sent h) msg | None \<Rightarrow> served (h_class h))"

fun rank :: "phase \<Rightarrow> nat" where
  "rank PSelect = 8" | "rank PAcl = 7" | "rank (PLimit _) = 6" | "rank PRead = 5" | "rank (PReading _) = 4"
| "rank PLookup = 3" | "rank (PWrite _ _) = 2" | "rank (PRefuse _ _) = 2" | "rank PFinish = 1" | "rank PReturned = 0"
| "rank (PBlocked _) = 0"

lemma upd_conn_fields [simp]:
  "s_sem (upd_conn h f s) = s_sem s" "s_cfg (upd_conn h f s) = s_cfg s" "s_store (upd_conn h f s) = s_store s"
  "s_acl (upd_conn h f s) = s_acl s" "s_limiter (upd_conn h f s) = s_limiter s" "s_log (upd_conn h f s) = s_log s"
  by (simp_all add: upd_conn_def split: option.split)

lemma writeReply_prefix: "writeReply d w msg = (out, e) \<Longrightarrow> prefix out msg"
  by (auto simp: writeReply_def take_is_prefix split: write_outcome.splits if_splits)

lemma writeReply_ends: "0 < d \<Longrightarrow> writeReply d w msg \<noteq> (out, WriteBlocked)"
  by (simp add: writeReply_def split: write_outcome.split)

lemma read_line_ends: "read_line limit now (Some d) eof stream \<noteq> None"
  unfolding read_line_def Let_def by (split option.split) (simp add: split_beta del: split_paired_All)

lemma refusal_simps [simp]:
  "refusal ''denied_busy'' = Some msg_busy" "refusal ''denied_acl'' = Some msg_denied"
  "refusal ''denied_rate'' = Some msg_rate" "refusal ''empty'' = Some msg_empty"
  "refusal ''error_read'' = Some []" "refusal [] = Some []"
  "refusal ''hit'' = None" "refusal ''miss'' = None" "refusal ''error_write'' = None"
  by (simp_all add: refusal_def)

text \<open>What every phase does: it comes closer to the end, keeps the handler well-formed, and accounts for its slot.\<close>

definition phase_good :: "('f, 'l) server \<Rightarrow> handler \<Rightarrow> ('f, 'l) server \<Rightarrow> handler \<Rightarrow> bool" where
  "phase_good s h s' h' \<longleftrightarrow>
     rank (h_phase h') < rank (h_phase h) \<and> handler_ok h' \<and> s_cfg s' = s_cfg s \<and>
     h_conn h' = h_conn h \<and> h_src h' = h_src h \<and> (h_phase h' = PReturned \<longleftrightarrow> h_phase h = PFinish) \<and>
     length (s_log s') = length (s_log s) + (if h_phase h = PFinish then 1 else 0) \<and>
     s_sem s' + (if h_holds h then 1 else 0) = s_sem s + (if h_holds h' then 1 else 0) \<and>
     (\<not> h_holds h \<longrightarrow> h_holds h' \<longrightarrow> int (s_sem s) < cfg_MaxConcurrent (s_cfg s))"

lemma good_select:
  "h_phase h = PSelect \<Longrightarrow> handler_ok h \<Longrightarrow> step_select i s h = (s', h') \<Longrightarrow> phase_good s h s' h'"
  by (auto simp: step_select_def Let_def phase_good_def handler_ok_def split: if_splits)

lemma good_acl: "h_phase h = PAcl \<Longrightarrow> handler_ok h \<Longrightarrow> phase_good s h s (step_acl s h)"
  by (auto simp: step_acl_def Let_def phase_good_def handler_ok_def split: prod.split)

lemma good_limit:
  "h_phase h = PLimit b \<Longrightarrow> handler_ok h \<Longrightarrow> step_limit pkg i b s h = (s', h') \<Longrightarrow> phase_good s h s' h'"
  by (auto simp: step_limit_def Let_def phase_good_def handler_ok_def split: option.splits if_splits prod.splits)

lemma good_read_start:
  "h_phase h = PRead \<Longrightarrow> handler_ok h \<Longrightarrow> step_deadline i s h = (s', h') \<Longrightarrow> phase_good s h s' h'"
  by (auto simp: step_deadline_def phase_good_def handler_ok_def)

lemma good_read:
  "h_phase h = PReading d \<Longrightarrow> handler_ok h \<Longrightarrow> step_read i d s h = (s', h') \<Longrightarrow> phase_good s h s' h'"
  by (auto simp: step_read_def Let_def phase_good_def handler_ok_def split: if_splits option.splits prod.splits)

lemma good_lookup:
  "h_phase h = PLookup \<Longrightarrow> handler_ok h \<Longrightarrow> step_lookup u s h = (s', h') \<Longrightarrow> phase_good s h s' h'"
  by (auto simp: step_lookup_def Let_def phase_good_def handler_ok_def split: prod.splits)

lemma good_write:
  "h_phase h = PWrite resp n \<Longrightarrow> handler_ok h \<Longrightarrow> step_write i resp n s h = (s', h') \<Longrightarrow> phase_good s h s' h'"
  by (cases "n = 0") (auto simp: step_write_def Let_def phase_good_def handler_ok_def served_def split: write_end.splits prod.splits)

lemma good_refuse:
  assumes "h_phase h = PRefuse msg st" "handler_ok h" "replyAndCount w msg st (s, h) = (s', h')"
  shows "phase_good s h s' h'"
proof -
  obtain out e where w: "writeReply (cfg_WriteTimeout (s_cfg s)) w msg = (out, e)" by fastforce
  then have "h' = (if e = WriteBlocked then h\<lparr>h_phase := PBlocked out\<rparr> else h\<lparr>h_phase := PFinish, h_sent := h_sent h @ out\<rparr>)"
    "s_sem s' = s_sem s" "s_cfg s' = s_cfg s" "s_log s' = s_log s"
    using assms(3) by (auto simp: replyAndCount_def Let_def split: if_splits)
  moreover have "refusal (h_class h) = Some msg" "h_sent h = []" "h_holds h \<or> h_class h = ''denied_busy''"
    using assms(1,2) by (simp_all add: handler_ok_def)
  ultimately show ?thesis
    using writeReply_prefix [OF w] assms(1) by (auto simp: phase_good_def handler_ok_def)
qed

lemma finish_Some:
  assumes "finish i s h = Some (s', h')"
  shows "h' = h\<lparr>h_phase := PReturned, h_holds := False\<rparr>" "s_cfg s' = s_cfg s"
    "s_sem s' = (if h_holds h then s_sem s - 1 else s_sem s)"
    "s_limiter s' = s_limiter s" "s_store s' = s_store s" "length (s_log s') = length (s_log s) + 1"
  using assms by (auto simp: finish_def Let_def split: option.splits prod.splits)

lemma good_finish:
  assumes "h_phase h = PFinish" "handler_ok h" "finish i s h = Some (s', h')" "h_holds h \<Longrightarrow> 0 < s_sem s"
  shows "phase_good s h s' h'"
  using finish_Some [OF assms(3)] assms
  by (cases "refusal (h_class h)") (auto simp: phase_good_def handler_ok_def)

lemma h_step_good:
  assumes "h_step u pkg i (s, h) = Some (s', h')" "handler_ok h" "h_holds h \<Longrightarrow> 0 < s_sem s" "0 < rank (h_phase h)"
  shows "phase_good s h s' h'"
proof (cases "h_phase h")
  case PSelect
  with assms good_select show ?thesis by (simp add: h_step_def)
next
  case PAcl
  with assms good_acl [OF PAcl, of s] show ?thesis by (auto simp: h_step_def)
next
  case (PLimit b)
  with assms good_limit show ?thesis by (simp add: h_step_def)
next
  case PRead
  with assms good_read_start show ?thesis by (simp add: h_step_def)
next
  case (PReading d)
  with assms good_read show ?thesis by (simp add: h_step_def)
next
  case PLookup
  with assms good_lookup show ?thesis by (simp add: h_step_def)
next
  case (PWrite resp n)
  with assms good_write show ?thesis by (simp add: h_step_def)
next
  case (PRefuse msg st)
  with assms good_refuse show ?thesis by (simp add: h_step_def)
next
  case PFinish
  then have "finish i s h = Some (s', h')" using assms(1) by (simp add: h_step_def)
  then show ?thesis using good_finish [OF PFinish assms(2) _ assms(3)] by blast
qed (use assms(4) in simp_all)

lemma h_step_idle: "rank (h_phase h) = 0 \<Longrightarrow> h_step u pkg i (s, h) = Some (s, h)"
  by (cases "h_phase h") (simp_all add: h_step_def)

subsection \<open>Every interleaving\<close>

lemma handle_start_facts:
  assumes "handle_start now r s = (s', h)"
  shows "handler_ok h" "\<not> h_holds h" "h_phase h = PSelect" "s_sem s' = s_sem s" "s_cfg s' = s_cfg s"
    "h_src h = remoteAddr r" "s_acl s' = s_acl s" "s_limiter s' = s_limiter s" "s_store s' = s_store s" "s_log s' = s_log s"
  using assms
  by (auto simp: handle_start_def openConn_def Let_def handler_ok_def split: option.splits prod.splits)

definition holders :: "handler list \<Rightarrow> nat" where
  "holders hs = length (filter h_holds hs)"

lemma length_filter_update:
  "i < length hs \<Longrightarrow> length (filter P (hs[i := h])) + (if P (hs ! i) then 1 else 0) = length (filter P hs) + (if P h then 1 else 0)"
proof (induction hs arbitrary: i)
  case (Cons x hs)
  then show ?case
  proof (cases i)
    case (Suc j)
    then show ?thesis using Cons.IH [of j] Cons.prems by simp
  qed simp
qed simp

lemma holders_update:
  "i < length hs \<Longrightarrow> holders (hs[i := h]) + (if h_holds (hs ! i) then 1 else 0) = holders hs + (if h_holds h then 1 else 0)"
  unfolding holders_def by (rule length_filter_update)

lemma holders_pos: "i < length hs \<Longrightarrow> h_holds (hs ! i) \<Longrightarrow> 0 < holders hs"
  by (auto simp: holders_def filter_empty_conv)

definition slots_ok :: "('f, 'l) server \<times> handler list \<Rightarrow> bool" where
  "slots_ok x \<longleftrightarrow> (case x of (s, hs) \<Rightarrow>
     list_all handler_ok hs \<and> s_sem s = holders hs \<and> int (s_sem s) \<le> cfg_MaxConcurrent (s_cfg s))"

lemma slots_ok_phase:
  assumes ok: "slots_ok (s, hs)" and i: "i < length hs" and st: "h_step u pkg inp (s, hs ! i) = Some (s', h')"
  shows "slots_ok (s', hs[i := h'])"
proof (cases "rank (h_phase (hs ! i)) = 0")
  case True
  then show ?thesis using h_step_idle [OF True, of u pkg inp s] st ok by auto
next
  case False
  have hok: "handler_ok (hs ! i)" and sem: "s_sem s = holders hs"
    using ok i by (auto simp: slots_ok_def list_all_length)
  have pos: "0 < s_sem s" if "h_holds (hs ! i)" using holders_pos [OF i that] sem by simp
  have g: "phase_good s (hs ! i) s' h'" using h_step_good [OF st hok pos] False by blast
  have all: "list_all handler_ok (hs[i := h'])"
    using ok g i by (auto simp: slots_ok_def phase_good_def list_all_length nth_list_update)
  have "s_sem s' = holders (hs[i := h'])"
    using g holders_update [OF i, of h'] sem pos unfolding phase_good_def by (auto split: if_splits)
  moreover have "int (s_sem s') \<le> cfg_MaxConcurrent (s_cfg s')"
    using g ok pos unfolding phase_good_def slots_ok_def by (auto split: if_splits)
  ultimately show ?thesis using all by (simp add: slots_ok_def)
qed

lemma slots_ok_step: "srv_step u pkg x y \<Longrightarrow> slots_ok x \<Longrightarrow> slots_ok y"
proof (induction rule: srv_step.induct)
  case (accepted now r s s' h hs)
  then show ?case using handle_start_facts [OF accepted.hyps] by (auto simp: slots_ok_def holders_def)
next
  case (phase i hs inp s s' h')
  then show ?case using slots_ok_phase by blast
qed (auto simp: slots_ok_def SetACL_def SetLimiter_def)

lemma slots_ok_reach:
  "srv_reach u pkg s0 x \<Longrightarrow> s_sem s0 = 0 \<Longrightarrow> 0 \<le> cfg_MaxConcurrent (s_cfg s0) \<Longrightarrow> slots_ok x"
proof (induction rule: srv_reach.induct)
  case init
  then show ?case by (simp add: slots_ok_def holders_def)
next
  case (step x y)
  then show ?case using slots_ok_step by blast
qed

text \<open>A server with one slot that accepts one connection and gives it the slot.\<close>

definition demo_cfg :: server_config where
  "demo_cfg = \<lparr>cfg_Bind = '':43'', cfg_ReadTimeout = 5, cfg_WriteTimeout = 5, cfg_MaxConcurrent = 1, cfg_MaxQueryBytes = 512\<rparr>"

definition demo_server :: "(unit, int) server" where
  "demo_server = \<lparr>s_cfg = demo_cfg, s_store = NewManager, s_stats = Some (NewRegistry 0), s_acl = bert_New ActionAllow,
     s_limiter = None, s_sem = 0, s_log = []\<rparr>"

definition demo_input :: step_input where
  "demo_input = \<lparr>in_now = 1, in_tnow = 1, in_done = False, in_take_sem = True,
     in_data = map (Pair 1) (''AS1'' @ [CHR 0x0A]), in_eof = False, in_write = WroteAll\<rparr>"

definition demo_remote :: remote where
  "demo_remote = TCPRemote [192, 0, 2, 1] ''192.0.2.1:99''"

definition demo_one :: "(unit, int) server \<times> handler" where
  "demo_one = the (h_step \<lparr>uni_upper = id, uni_lower = id\<rparr> counting_pkg demo_input (handle_start 0 demo_remote demo_server))"

lemma demo_new: "server_New demo_cfg NewManager (bert_New ActionAllow) None (Some (NewRegistry 0)) = Some demo_server"
  by (simp add: server_New_def demo_cfg_def demo_server_def)

lemma demo_one_eq: "demo_one = step_select demo_input (fst (handle_start 0 demo_remote demo_server)) (snd (handle_start 0 demo_remote demo_server))"
proof -
  obtain s h where start: "handle_start 0 demo_remote demo_server = (s, h)" by fastforce
  then show ?thesis using handle_start_facts(3) [OF start] by (simp add: demo_one_def h_step_def start)
qed

lemma demo_one_facts: "s_sem (fst demo_one) = 1" "h_holds (snd demo_one)" "h_phase (snd demo_one) = PAcl" "h_class (snd demo_one) = []"
  by (simp_all add: demo_one_eq step_select_def demo_input_def handle_start_def openConn_def demo_server_def demo_cfg_def Let_def
      split: prod.split)

lemma demo_reach:
  "srv_reach \<lparr>uni_upper = id, uni_lower = id\<rparr> counting_pkg demo_server (fst demo_one, [snd demo_one])"
proof -
  let ?u = "\<lparr>uni_upper = id, uni_lower = id\<rparr>"
  obtain s h where start: "handle_start 0 demo_remote demo_server = (s, h)" by fastforce
  have "srv_reach ?u counting_pkg demo_server (s, [h])"
    using srv_reach.step [OF srv_reach.init srv_step.accepted [OF start]] by simp
  moreover have "h_step ?u counting_pkg demo_input (s, h) = Some demo_one"
    using handle_start_facts(3) [OF start] by (simp add: demo_one_eq start h_step_def)
  then have "srv_step ?u counting_pkg (s, [h]) (fst demo_one, [h][0 := snd demo_one])"
    by (intro srv_step.phase [where inp = demo_input]) simp_all
  ultimately show ?thesis using srv_reach.step by fastforce
qed

text \<open>
  C11: bounded concurrency. Under every interleaving of connections, reloads, limiter and list
  swaps, the semaphore counts exactly the handlers that hold a slot, their number never
  exceeds the configured maximum, and no slot leaks: when all handlers have returned the
  semaphore is empty.
\<close>

theorem concurrency_bounded:
  assumes "server_New cfg store a lm reg = Some s0" and "srv_reach u pkg s0 (s, hs)"
  shows "s_sem s = length (filter h_holds hs) \<and> int (length (filter h_holds hs)) \<le> cfg_MaxConcurrent (s_cfg s) \<and>
    ((\<forall>h \<in> set hs. h_phase h = PReturned) \<longrightarrow> s_sem s = 0)"
proof -
  have "slots_ok (s, hs)"
    using slots_ok_reach [OF assms(2)] assms(1) by (auto simp: server_New_def split: if_splits)
  then show ?thesis
    by (auto simp: slots_ok_def holders_def handler_ok_def list_all_iff filter_empty_conv)
qed

theorem concurrency_bounded_witness: "length (filter h_holds [snd demo_one]) = 1"
  using concurrency_bounded [OF demo_new demo_reach] demo_one_facts by simp

text \<open>
  C10: a refused connection gets its refusal and nothing else. Under every interleaving, what a
  connection that was refused for load, by the access list, by the rate limiter or for an
  empty query has received is a beginning of the one line for that case; a connection with a
  read error, or not yet classified, has received nothing; so the writes that returned have
  sent objects only on connections classified as a hit, a miss or a write error. A refused
  connection whose write never returns has also received no more than a beginning of its line.
\<close>

theorem refused_gets_only_refusal:
  assumes "server_New cfg store a lm reg = Some s0" and "srv_reach u pkg s0 (s, hs)" and "h \<in> set hs"
  shows "(case refusal (h_class h) of
      Some msg \<Rightarrow> prefix (h_sent h) msg
    | None \<Rightarrow> h_class h \<in> {''hit'', ''miss'', ''error_write''}) \<and>
    (\<forall>out. h_phase h = PBlocked out \<and> h_class h \<noteq> [] \<longrightarrow>
       (\<exists>msg. refusal (h_class h) = Some msg \<and> prefix (h_sent h @ out) msg))"
proof -
  have "slots_ok (s, hs)"
    using slots_ok_reach [OF assms(2)] assms(1) by (auto simp: server_New_def split: if_splits)
  then show ?thesis using assms(3)
    by (fastforce simp: slots_ok_def list_all_iff handler_ok_def served_def split: option.splits)
qed

theorem refused_gets_only_refusal_witness: "h_sent (snd demo_one) = []"
  using refused_gets_only_refusal [OF demo_new demo_reach, of "snd demo_one"] demo_one_facts by simp

subsection \<open>Accounting\<close>

lemma stats_upd_conn [simp]:
  "h_conn h = Some cid \<Longrightarrow> s_stats (upd_conn h f s) = map_option (reg_upd cid f) (s_stats s)"
  by (simp add: upd_conn_def)

lemma finish_stats:
  assumes "finish i s h = Some (s', h')" "s_stats s = Some r" "h_conn h = Some cid"
  shows "\<exists>r'. s_stats s' = Some r' \<and> reg_nextID r' = reg_nextID r \<and>
    Mapping.keys (reg_conns r') = Mapping.keys (reg_conns r) - {cid}"
proof -
  obtain r' c where c: "reg_Close (in_now i) (in_tnow i) cid (h_class h) r = Some (r', c)" "s_stats s' = Some r'"
    using assms by (auto simp: finish_def Let_def split: option.splits prod.splits if_splits)
  show ?thesis
  proof (cases "Mapping.lookup (reg_conns r) cid")
    case None
    then have "cid \<notin> Mapping.keys (reg_conns r)" by (simp add: gmap_keys)
    moreover have "r' = r" using c(1) None by (simp add: reg_Close_def)
    ultimately show ?thesis using c(2) by simp
  next
    case (Some x)
    then show ?thesis using Close_fields [OF c(1)] c(2) by simp
  qed
qed

lemma h_step_stats:
  assumes "h_step u pkg i (s, h) = Some (s', h')" "s_stats s = Some r" "h_conn h = Some cid"
  shows "\<exists>r'. s_stats s' = Some r' \<and> reg_nextID r' = reg_nextID r \<and>
    Mapping.keys (reg_conns r') = (if h_phase h = PFinish then Mapping.keys (reg_conns r) - {cid} else Mapping.keys (reg_conns r))"
proof (cases "h_phase h")
  case PFinish
  then have "finish i s h = Some (s', h')" using assms(1) by (simp add: h_step_def)
  from finish_stats [OF this assms(2,3)] PFinish show ?thesis by simp
qed (use assms in \<open>auto simp: h_step_def step_select_def step_limit_def step_deadline_def step_read_def step_lookup_def step_write_def
      replyAndCount_def Let_def split: if_splits option.splits write_end.splits prod.splits\<close>)

text \<open>Connection number \<open>k\<close> (from 1) belongs to the handler at position \<open>k - 1\<close>.\<close>

definition live_numbers :: "handler list \<Rightarrow> nat set" where
  "live_numbers hs = {k. k < length hs \<and> h_phase (hs ! k) \<noteq> PReturned}"

definition acct_ok :: "('f, 'l) server \<times> handler list \<Rightarrow> bool" where
  "acct_ok x \<longleftrightarrow> (case x of (s, hs) \<Rightarrow>
     (\<exists>r. s_stats s = Some r \<and> reg_nextID r = of_nat (length hs) \<and>
        Mapping.keys (reg_conns r) = (\<lambda>k. of_nat (k + 1)) ` live_numbers hs) \<and>
     (\<forall>k < length hs. h_conn (hs ! k) = Some (of_nat (k + 1))) \<and>
     length (s_log s) = length (filter (\<lambda>h. h_phase h = PReturned) hs))"

lemma live_numbers_snoc: "h_phase h \<noteq> PReturned \<Longrightarrow> live_numbers (hs @ [h]) = insert (length hs) (live_numbers hs)"
  by (auto simp: live_numbers_def nth_append less_Suc_eq)

lemma live_numbers_update:
  "i < length hs \<Longrightarrow> live_numbers (hs[i := h]) = (if h_phase h = PReturned then live_numbers hs - {i} else insert i (live_numbers hs))"
  by (auto simp: live_numbers_def nth_list_update)

lemma of_nat_inj64: "inj_on (\<lambda>k. of_nat (k + 1) :: 64 word) {..< 2 ^ 64 - 1}"
  by (rule inj_onI) (auto simp: word_of_nat_eq_iff take_bit_nat_eq_self)

lemma acct_ok_accept:
  assumes "acct_ok (s, hs)" "handle_start now r s = (s', h)"
  shows "acct_ok (s', hs @ [h])"
proof -
  note f = handle_start_facts [OF assms(2)]
  obtain g where g: "s_stats s = Some g" "reg_nextID g = of_nat (length hs)"
    "Mapping.keys (reg_conns g) = (\<lambda>k. of_nat (k + 1)) ` live_numbers hs"
    using assms(1) by (auto simp: acct_ok_def)
  define g' where "g' = fst (reg_Open now (Addr_String (remoteAddr r)) g)"
  have st: "s_stats s' = Some g'" "h_conn h = Some (of_nat (length hs + 1))"
    using assms(2) g(1,2) by (auto simp: handle_start_def openConn_def Let_def g'_def reg_Open_def add.commute)
  have "reg_nextID g' = of_nat (length (hs @ [h]))" using g(2) by (simp add: g'_def reg_Open_def Let_def add.commute)
  moreover have "Mapping.keys (reg_conns g') = insert (of_nat (length hs + 1)) (Mapping.keys (reg_conns g))"
    using g(2) by (simp add: g'_def reg_Open_def Let_def add.commute)
  moreover have "live_numbers (hs @ [h]) = insert (length hs) (live_numbers hs)" using f(3) by (simp add: live_numbers_snoc)
  ultimately show ?thesis
    using assms(1) g st f(3,10) by (auto simp: acct_ok_def nth_append less_Suc_eq)
qed

lemma acct_ok_phase:
  assumes ok: "acct_ok (s, hs)" "slots_ok (s, hs)" and len: "length hs < 2 ^ 64" and i: "i < length hs"
    and st: "h_step u pkg inp (s, hs ! i) = Some (s', h')"
  shows "acct_ok (s', hs[i := h'])"
proof (cases "rank (h_phase (hs ! i)) = 0")
  case True
  then show ?thesis using h_step_idle [OF True, of u pkg inp s] st ok by auto
next
  case False
  obtain g where g: "s_stats s = Some g" "reg_nextID g = of_nat (length hs)"
    "Mapping.keys (reg_conns g) = (\<lambda>k. of_nat (k + 1)) ` live_numbers hs"
    and conn: "\<forall>k < length hs. h_conn (hs ! k) = Some (of_nat (k + 1))"
    and log: "length (s_log s) = length (filter (\<lambda>h. h_phase h = PReturned) hs)"
    using ok(1) by (auto simp: acct_ok_def)
  have hok: "handler_ok (hs ! i)" and sem: "s_sem s = holders hs"
    using ok(2) i by (auto simp: slots_ok_def list_all_length)
  have pos: "0 < s_sem s" if "h_holds (hs ! i)" using holders_pos [OF i that] sem by simp
  have good: "phase_good s (hs ! i) s' h'" using h_step_good [OF st hok pos] False by blast
  then have ret: "h_phase h' = PReturned \<longleftrightarrow> h_phase (hs ! i) = PFinish" and c: "h_conn h' = h_conn (hs ! i)"
    and l: "length (s_log s') = length (s_log s) + (if h_phase (hs ! i) = PFinish then 1 else 0)"
    by (auto simp: phase_good_def)
  have ci: "h_conn (hs ! i) = Some (of_nat (i + 1))" using conn i by blast
  obtain g' where g': "s_stats s' = Some g'" "reg_nextID g' = reg_nextID g"
    "Mapping.keys (reg_conns g') = (if h_phase (hs ! i) = PFinish then Mapping.keys (reg_conns g) - {of_nat (i + 1)}
       else Mapping.keys (reg_conns g))"
    using h_step_stats [OF st g(1) ci] by blast
  have live: "i \<in> live_numbers hs" using i False by (auto simp: live_numbers_def)
  have inj: "inj_on (\<lambda>k. of_nat (k + 1) :: 64 word) (live_numbers hs)"
    using len by (intro inj_on_subset [OF of_nat_inj64]) (auto simp: live_numbers_def)
  have "(\<lambda>k. of_nat (k + 1) :: 64 word) ` (live_numbers hs - {i}) = (\<lambda>k. of_nat (k + 1)) ` live_numbers hs - {of_nat (i + 1)}"
    using inj_on_image_set_diff [OF inj, of "live_numbers hs" "{i}"] live by simp
  then have keys: "Mapping.keys (reg_conns g') = (\<lambda>k. of_nat (k + 1)) ` live_numbers (hs[i := h'])"
    using g' g(3) live ret i by (simp add: live_numbers_update insert_absorb)
  have "length (s_log s') = length (filter (\<lambda>h. h_phase h = PReturned) (hs[i := h']))"
    using length_filter_update [OF i, of "\<lambda>h. h_phase h = PReturned" h'] l log ret False by (auto split: if_splits)
  moreover have "h_conn (hs[i := h'] ! k) = Some (of_nat (k + 1))" if "k < length (hs[i := h'])" for k
    using conn c ci that by (cases "k = i") auto
  ultimately show ?thesis using g' g(2) keys by (simp add: acct_ok_def)
qed

lemma acct_ok_step:
  "srv_step u pkg x y \<Longrightarrow> slots_ok x \<Longrightarrow> length (snd y) < 2 ^ 64 \<Longrightarrow> acct_ok x \<Longrightarrow> acct_ok y"
proof (induction rule: srv_step.induct)
  case (accepted now r s s' h hs)
  then show ?case using acct_ok_accept by blast
next
  case (phase i hs inp s s' h')
  then show ?case using acct_ok_phase [of s hs i u pkg inp s' h'] by simp
qed (auto simp: acct_ok_def SetACL_def SetLimiter_def)

lemma srv_step_length: "srv_step u pkg x y \<Longrightarrow> length (snd x) \<le> length (snd y)"
  by (induction rule: srv_step.induct) auto

lemma acct_ok_reach:
  assumes "server_New cfg store a lm (Some (NewRegistry t0)) = Some s0"
  shows "srv_reach u pkg s0 x \<Longrightarrow> length (snd x) < 2 ^ 64 \<Longrightarrow> acct_ok x"
proof (induction rule: srv_reach.induct)
  case init
  show ?case using assms by (auto simp: server_New_def acct_ok_def live_numbers_def NewRegistry_def split: if_splits)
next
  case (step x y)
  have "slots_ok x"
    using slots_ok_reach [OF step.hyps(1)] assms by (auto simp: server_New_def split: if_splits)
  moreover have "length (snd x) < 2 ^ 64" using step.prems srv_step_length [OF step.hyps(2)] by simp
  ultimately show ?case using acct_ok_step [OF step.hyps(2)] step by blast
qed

text \<open>
  C13: the statistics and the log account for every connection. Under every interleaving, and as
  long as fewer than \<open>2^64\<close> connections were accepted, the live connections of the registry are
  exactly those whose handler has not returned, each handler with its own number in the order
  of acceptance, and the log has exactly one record for every handler that returned.
\<close>

theorem connections_accounted:
  assumes "server_New cfg store a lm (Some (NewRegistry t0)) = Some s0" and "srv_reach u pkg s0 (s, hs)"
    and "length hs < 2 ^ 64"
  shows "\<exists>r. s_stats s = Some r \<and>
      Mapping.keys (reg_conns r) = {of_nat (k + 1) | k. k < length hs \<and> h_phase (hs ! k) \<noteq> PReturned} \<and>
      (\<forall>k < length hs. h_conn (hs ! k) = Some (of_nat (k + 1))) \<and>
      length (s_log s) = length (filter (\<lambda>h. h_phase h = PReturned) hs)"
  using acct_ok_reach [OF assms(1,2)] assms(3) by (auto simp: acct_ok_def live_numbers_def)

theorem connections_accounted_witness:
  "\<exists>r. s_stats (fst demo_one) = Some r \<and> 1 \<in> Mapping.keys (reg_conns r) \<and> s_log (fst demo_one) = []"
proof -
  have "length [snd demo_one] < 2 ^ 64" by simp
  from connections_accounted [OF demo_new demo_reach this] demo_one_facts(3) show ?thesis by fastforce
qed

subsection \<open>One connection from start to end\<close>

definition stats_ready :: "('f, 'l) server \<Rightarrow> bool" where
  "stats_ready s \<longleftrightarrow> (case s_stats s of None \<Rightarrow> True | Some r \<Rightarrow> r_buckets (qpsRing (reg_totals r)) \<noteq> [])"

lemma tick_runs: "0 \<le> sec \<Longrightarrow> r_buckets r \<noteq> [] \<Longrightarrow> ring_tick sec r \<noteq> None"
proof -
  assume a: "0 \<le> sec" "r_buckets r \<noteq> []"
  have "length (r_buckets (ring_advance sec r)) = length (r_buckets r)"
    by (simp add: ring_advance_def Let_def length_fold_update)
  then have "0 < int (length (r_buckets (ring_advance sec r)))" using a(2) by simp
  moreover from smod_pos [OF a(1) this] this have "0 \<le> sec smod int (length (r_buckets (ring_advance sec r)))" by simp
  ultimately show ?thesis by (auto simp: ring_tick_def Let_def)
qed

lemma count_class_runs:
  "0 \<le> now \<Longrightarrow> r_buckets (qpsRing t) \<noteq> [] \<Longrightarrow> count_class now cl t \<noteq> None"
  using tick_runs [of "unix_sec now" "qpsRing t"] by (auto simp: count_class_def unix_sec_def)

lemma finish_runs:
  assumes "stats_ready s" "0 \<le> in_tnow i"
  shows "finish i s h \<noteq> None"
proof -
  have "reg_Close now (in_tnow i) cid cl r \<noteq> None" if "s_stats s = Some r" for now cid cl r
    using assms count_class_runs that by (auto simp: stats_ready_def reg_Close_def Let_def split: option.splits)
  then show ?thesis by (auto simp: finish_def Let_def split: option.splits prod.splits)
qed

lemma ready_upd_conn [simp]: "stats_ready (upd_conn h f s) = stats_ready s"
  by (auto simp: stats_ready_def upd_conn_def split: option.splits)

lemma ready_fields [simp]:
  "stats_ready (s\<lparr>s_sem := n\<rparr>) = stats_ready s" "stats_ready (s\<lparr>s_limiter := l\<rparr>) = stats_ready s"
  by (simp_all add: stats_ready_def)

text \<open>The phases of a handler that waits for nothing without a deadline.\<close>

fun unblocked :: "phase \<Rightarrow> bool" where
  "unblocked (PReading None) = False"
| "unblocked (PBlocked _) = False"
| "unblocked _ = True"

lemma unblocked_returned: "rank p = 0 \<Longrightarrow> unblocked p \<Longrightarrow> p = PReturned"
  by (cases p) simp_all

lemma h_step_runs:
  assumes "stats_ready s" "0 \<le> in_tnow i"
  shows "\<exists>s' h'. h_step u pkg i (s, h) = Some (s', h') \<and> (h_phase h' = PReturned \<or> stats_ready s')"
proof (cases "h_phase h")
  case PFinish
  obtain s' h' where "finish i s h = Some (s', h')" using finish_runs [OF assms, of h] by auto
  with PFinish finish_Some(1) show ?thesis by (fastforce simp: h_step_def)
next
  case PReturned
  then show ?thesis by (simp add: h_step_def)
qed (use assms in \<open>auto simp: h_step_def step_select_def step_limit_def step_deadline_def step_read_def step_lookup_def
      step_write_def replyAndCount_def Let_def split: prod.split option.split write_end.split\<close>)

lemma unblocked_step:
  assumes "h_step u pkg i (s, h) = Some (s', h')" "unblocked (h_phase h)" "0 < cfg_WriteTimeout (s_cfg s)"
  shows "unblocked (h_phase h')"
proof (cases "h_phase h")
  case (PReading d)
  with assms(2) obtain t where d: "d = Some t" by (cases d) auto
  obtain line err where "read_line (cfg_MaxQueryBytes (s_cfg s)) (in_now i) (Some t) (in_eof i) (in_data i) = Some (line, err)"
    using read_line_ends by fastforce
  then show ?thesis using assms(1) PReading d by (auto simp: h_step_def step_read_def Let_def split: if_splits prod.splits)
next
  case (PWrite resp n)
  then show ?thesis using assms(1) writeReply_ends [OF assms(3)]
    by (auto simp: h_step_def step_write_def Let_def split: write_end.splits prod.splits)
next
  case (PRefuse msg st)
  then show ?thesis using assms(1) writeReply_ends [OF assms(3)]
    by (auto simp: h_step_def replyAndCount_def Let_def split: prod.splits if_splits)
next
  case PFinish
  then have "finish i s h = Some (s', h')" using assms(1) by (simp add: h_step_def)
  then show ?thesis using finish_Some(1) by fastforce
qed (use assms in \<open>auto simp: h_step_def step_select_def step_acl_def step_limit_def step_deadline_def step_lookup_def Let_def
      split: if_splits option.splits prod.splits\<close>)

lemma h_run_idle: "rank (h_phase h) = 0 \<Longrightarrow> h_run u pkg is (s, h) = Some (s, h)"
  by (induction "is") (simp_all add: h_step_idle)

lemma h_run_returns:
  assumes "\<forall>i \<in> set is. 0 \<le> in_tnow i" "rank (h_phase h) \<le> length is" "handler_ok h" "h_phase h = PReturned \<or> stats_ready s"
    "h_holds h \<Longrightarrow> 0 < s_sem s" "unblocked (h_phase h)" "0 < cfg_WriteTimeout (s_cfg s)"
  shows "\<exists>s' h'. h_run u pkg is (s, h) = Some (s', h') \<and> h_phase h' = PReturned \<and> handler_ok h' \<and>
    s_sem s' + (if h_holds h then 1 else 0) = s_sem s \<and>
    length (s_log s') = length (s_log s) + (if h_phase h = PReturned then 0 else 1)"
  using assms
proof (induction "is" arbitrary: s h)
  case Nil
  then have "h_phase h = PReturned" using unblocked_returned by simp
  with Nil show ?case by (auto simp: handler_ok_def)
next
  case (Cons i "is")
  show ?case
  proof (cases "h_phase h = PReturned")
    case True
    then show ?thesis using Cons.prems h_run_idle [of h u pkg "i # is" s] by (auto simp: handler_ok_def)
  next
    case False
    then obtain s1 h1 where st: "h_step u pkg i (s, h) = Some (s1, h1)" and r: "h_phase h1 = PReturned \<or> stats_ready s1"
      using h_step_runs [of s i u pkg h] Cons.prems by auto
    have "0 < rank (h_phase h)" using False unblocked_returned Cons.prems(6) by blast
    then have g: "phase_good s h s1 h1" using h_step_good [OF st Cons.prems(3,5)] by blast
    have "rank (h_phase h1) \<le> length is" "handler_ok h1" "0 < cfg_WriteTimeout (s_cfg s1)" "unblocked (h_phase h1)"
      using g Cons.prems(2,7) unblocked_step [OF st Cons.prems(6,7)] by (auto simp: phase_good_def)
    moreover have "0 < s_sem s1" if "h_holds h1"
      using that g Cons.prems(5) by (auto simp: phase_good_def split: if_splits)
    ultimately obtain s' h' where run: "h_run u pkg is (s1, h1) = Some (s', h')" "h_phase h' = PReturned" "handler_ok h'"
      "s_sem s' + (if h_holds h1 then 1 else 0) = s_sem s1"
      "length (s_log s') = length (s_log s1) + (if h_phase h1 = PReturned then 0 else 1)"
      using Cons.IH [of h1 s1] Cons.prems(1) r by auto
    then show ?thesis using st g False by (auto simp: phase_good_def split: if_splits)
  qed
qed

lemma handle_returns:
  assumes "0 < cfg_WriteTimeout (s_cfg s)" "8 \<le> length is" "\<forall>i \<in> set is. 0 \<le> in_tnow i" "stats_ready s"
  shows "\<exists>s' h'. handle u pkg now r is s = Some (s', h') \<and> h_phase h' = PReturned \<and> s_sem s' = s_sem s \<and>
    length (s_log s') = length (s_log s) + 1"
proof -
  obtain s1 h where start: "handle_start now r s = (s1, h)" by fastforce
  note f = handle_start_facts [OF start]
  have ready: "stats_ready s1"
    using start assms(4) by (auto simp: handle_start_def openConn_def Let_def stats_ready_def reg_Open_def split: option.splits)
  have "rank (h_phase h) \<le> length (take 8 is)" "\<forall>i \<in> set (take 8 is). 0 \<le> in_tnow i"
    using assms(2,3) f(3) by (auto dest: in_set_takeD)
  with h_run_returns [of "take 8 is" h s1 u pkg] f ready assms(1) show ?thesis
    by (auto simp: handle_def start)
qed

text \<open>
  C12: every connection ends. When the write timeout is positive, a handler runs to its end in
  eight phases without a panic, whatever the client and the network do: bytes that trickle in
  or never come, a stream that stays open, writes that fail or stall, and any read timeout (on
  a machine whose clock is past 1970 and a registry with its ring). It gives back the slot it
  took, and writes exactly one record to the log. What bounds it are the two deadlines: in the
  model a read without one, or a write without one, can stay blocked for ever.
\<close>

theorem every_connection_ends:
  assumes "0 < cfg_WriteTimeout (s_cfg s)" and "8 \<le> length is" and "\<forall>i \<in> set is. 0 \<le> in_tnow i" and "stats_ready s"
  shows "\<exists>s' h'. handle u pkg now r is s = Some (s', h') \<and> h_phase h' = PReturned \<and> s_sem s' = s_sem s \<and>
    length (s_log s') = length (s_log s) + 1"
  by (rule handle_returns [OF assms])

lemma demo_ready: "stats_ready demo_server"
  by (simp add: stats_ready_def demo_server_def NewRegistry_def ring_init_def)

text \<open>A client that sends half a line and then nothing, and takes half of the reply.\<close>

definition stalling_input :: step_input where
  "stalling_input = demo_input\<lparr>in_data := map (Pair 1) ''AS1'', in_write := Stalled 40 ''i/o timeout''\<rparr>"

theorem every_connection_ends_witness:
  "\<exists>s' h'. handle ascii_unicode counting_pkg 0 demo_remote (replicate 8 stalling_input) demo_server = Some (s', h') \<and>
     length (s_log s') = 1"
proof -
  have "0 < cfg_WriteTimeout (s_cfg demo_server)" by (simp add: demo_server_def demo_cfg_def)
  moreover have "8 \<le> length (replicate 8 stalling_input)" "\<forall>i \<in> set (replicate 8 stalling_input). 0 \<le> in_tnow i"
    by (simp_all add: stalling_input_def demo_input_def)
  ultimately show ?thesis
    using every_connection_ends [of demo_server "replicate 8 stalling_input", OF _ _ _ demo_ready, of ascii_unicode counting_pkg 0 demo_remote]
    by (auto simp: demo_server_def)
qed

text \<open>
  Without a positive write timeout \<open>writeReply\<close> sets no deadline. A client that asks for more
  than the connection buffers and then stops reading keeps its handler, and the slot it holds,
  for ever: no later phase, with whatever input, changes anything.
\<close>

theorem stalled_client_keeps_slot:
  assumes "cfg_WriteTimeout (s_cfg s) \<le> 0" and "h_phase h = PWrite resp n" and "k < length resp" and "in_write i = Stalled k e"
  shows "h_run u pkg (i # is) (s, h) = Some (s, h\<lparr>h_phase := PBlocked (take k resp)\<rparr>)"
proof -
  have "h_step u pkg i (s, h) = Some (s, h\<lparr>h_phase := PBlocked (take k resp)\<rparr>)"
    using assms by (simp add: h_step_def step_write_def writeReply_def Let_def)
  then show ?thesis using h_run_idle [of "h\<lparr>h_phase := PBlocked (take k resp)\<rparr>" u pkg "is" s] by simp
qed

end
