(* ===== verification/Server_Answer.thy ===== *)
theory Server_Answer
  imports Server_Props
begin

section \<open>What a permitted client receives\<close>

text \<open>
  The composition of the access list, the limiter, the query parser, the store and the reply
  for one connection that is handled without interruption.
\<close>

lemma acl_passes:
  assumes "MatchExplicit (s_acl s) (h_src h) = (act, explicit)" "act \<noteq> ActionDeny"
  shows "step_acl s h = h\<lparr>h_phase := PLimit (explicit \<and> act = ActionAllow)\<rparr>"
  using assms by (simp add: step_acl_def)

definition passes_limit :: "('f, 'l) rate_pkg \<Rightarrow> int \<Rightarrow> addr \<Rightarrow> bool \<Rightarrow> ('f, 'l) server \<Rightarrow> bool" where
  "passes_limit pkg now src bypassRate s \<longleftrightarrow>
     bypassRate \<or> (case s_limiter s of None \<Rightarrow> True | Some lm \<Rightarrow> snd (limiter_Allow pkg now src lm))"

lemma limit_passes:
  assumes "passes_limit pkg (in_now i) (h_src h) b s"
  shows "\<exists>s'. step_limit pkg i b s h = (s', h\<lparr>h_phase := PRead\<rparr>) \<and> s_store s' = s_store s \<and> s_cfg s' = s_cfg s \<and>
    (b \<longrightarrow> s' = s)"
  using assms by (auto simp: step_limit_def passes_limit_def Let_def split: option.splits prod.splits)

lemma read_passes:
  assumes "read_line (cfg_MaxQueryBytes (s_cfg s)) (in_now i) d (in_eof i) (in_data i) = Some (line, err)" "line \<noteq> []" "parseQuery line = (q, flags)" "q \<noteq> []"
  shows "\<exists>s'. step_read i d s h = (s', h\<lparr>h_phase := PLookup, h_query := q, h_flags := flags\<rparr>) \<and> s_store s' = s_store s \<and>
    s_limiter s' = s_limiter s"
  using assms by (simp add: step_read_def Let_def)

lemma lookup_passes:
  "\<exists>s'. step_lookup u s h = (s', h\<lparr>h_phase := PWrite (fst (answer u (s_store s) (h_query h) (h_flags h)))
       (snd (answer u (s_store s) (h_query h) (h_flags h)))\<rparr>) \<and> s_store s' = s_store s \<and> s_limiter s' = s_limiter s"
  by (simp add: step_lookup_def Let_def split: prod.split)

lemma write_passes:
  assumes "in_write i = WroteAll"
  shows "\<exists>s'. step_write i resp n s h =
      (s', h\<lparr>h_phase := PFinish, h_sent := h_sent h @ resp, h_class := if n = 0 then ''miss'' else ''hit''\<rparr>) \<and>
    s_store s' = s_store s \<and> s_limiter s' = s_limiter s"
  using assms by (simp add: step_write_def writeReply_def Let_def)

lemma h_run_Cons: "h_step u pkg i x = Some y \<Longrightarrow> h_run u pkg (i # is) x = h_run u pkg is y"
  by simp

lemma served_run:
  assumes "int (s_sem s) < cfg_MaxConcurrent (s_cfg s)" "\<not> in_done i0"
    "MatchExplicit (s_acl s) (h_src h) = (act, explicit)" "act \<noteq> ActionDeny"
    "passes_limit pkg (in_now i2) (h_src h) (explicit \<and> act = ActionAllow) s"
    "read_line (cfg_MaxQueryBytes (s_cfg s)) (in_now i4) (Some (in_now i3 + cfg_ReadTimeout (s_cfg s))) (in_eof i4) (in_data i4) =
       Some (line, err)" "line \<noteq> []" "parseQuery line = (q, flags)" "q \<noteq> []"
    "in_write i6 = WroteAll" "h_phase h = PSelect" "h_sent h = []"
  shows "\<exists>s' h'. h_run u pkg (i0 # i1 # i2 # i3 # i4 # i5 # i6 # rest) (s, h) = h_run u pkg rest (s', h') \<and>
    h_phase h' = PFinish \<and> h_sent h' = fst (answer u (s_store s) q flags) \<and>
    h_class h' = (if snd (answer u (s_store s) q flags) = 0 then ''miss'' else ''hit'') \<and>
    s_store s' = s_store s \<and> (explicit \<and> act = ActionAllow \<longrightarrow> s_limiter s' = s_limiter s)"
proof -
  let ?s1 = "s\<lparr>s_sem := s_sem s + 1\<rparr>"
  let ?h1 = "h\<lparr>h_phase := PAcl, h_holds := True\<rparr>"
  have e0: "h_step u pkg i0 (s, h) = Some (?s1, ?h1)"
    using assms(1,2,11) by (simp add: h_step_def step_select_def Let_def)
  let ?b = "explicit \<and> act = ActionAllow"
  let ?h2 = "?h1\<lparr>h_phase := PLimit ?b\<rparr>"
  have e1: "h_step u pkg i1 (?s1, ?h1) = Some (?s1, ?h2)"
    using acl_passes [of ?s1 ?h1 act explicit] assms(3,4) by (simp add: h_step_def)
  have "passes_limit pkg (in_now i2) (h_src ?h2) ?b ?s1" using assms(5) by (simp add: passes_limit_def)
  then obtain s3 where s3: "step_limit pkg i2 ?b ?s1 ?h2 = (s3, ?h2\<lparr>h_phase := PRead\<rparr>)" "s_store s3 = s_store s" "s_cfg s3 = s_cfg s"
    "?b \<longrightarrow> s3 = ?s1"
    using limit_passes [of pkg i2 ?h2 ?b ?s1] by auto
  let ?h3 = "?h2\<lparr>h_phase := PRead\<rparr>"
  have e2: "h_step u pkg i2 (?s1, ?h2) = Some (s3, ?h3)" using s3(1) by (simp add: h_step_def)
  let ?s4 = "upd_conn ?h3 (SetState StateReading) s3"
  let ?d = "Some (in_now i3 + cfg_ReadTimeout (s_cfg s))"
  let ?h4 = "?h3\<lparr>h_phase := PReading ?d\<rparr>"
  have e3: "h_step u pkg i3 (s3, ?h3) = Some (?s4, ?h4)" using s3(3) by (simp add: h_step_def step_deadline_def)
  have "read_line (cfg_MaxQueryBytes (s_cfg ?s4)) (in_now i4) ?d (in_eof i4) (in_data i4) = Some (line, err)"
    using assms(6) s3(3) by simp
  then obtain s5 where s5: "step_read i4 ?d ?s4 ?h4 = (s5, ?h4\<lparr>h_phase := PLookup, h_query := q, h_flags := flags\<rparr>)"
    "s_store s5 = s_store ?s4" "s_limiter s5 = s_limiter ?s4"
    using read_passes [OF _ assms(7-9)] by blast
  let ?h5 = "?h4\<lparr>h_phase := PLookup, h_query := q, h_flags := flags\<rparr>"
  have e4: "h_step u pkg i4 (?s4, ?h4) = Some (s5, ?h5)" using s5(1) by (simp add: h_step_def)
  let ?ans = "answer u (s_store s) q flags"
  have store5: "s_store s5 = s_store s" using s5(2) s3(2) by simp
  let ?h6 = "?h5\<lparr>h_phase := PWrite (fst ?ans) (snd ?ans)\<rparr>"
  obtain s6 where s6: "step_lookup u s5 ?h5 = (s6, ?h6)" "s_store s6 = s_store s5" "s_limiter s6 = s_limiter s5"
    using lookup_passes [of u s5 ?h5] store5 by auto
  have e5: "h_step u pkg i5 (s5, ?h5) = Some (s6, ?h6)" using s6(1) by (simp add: h_step_def)
  let ?h7 = "?h6\<lparr>h_phase := PFinish, h_sent := h_sent ?h6 @ fst ?ans, h_class := if snd ?ans = 0 then ''miss'' else ''hit''\<rparr>"
  obtain s7 where s7: "step_write i6 (fst ?ans) (snd ?ans) s6 ?h6 = (s7, ?h7)" "s_store s7 = s_store s6" "s_limiter s7 = s_limiter s6"
    using write_passes [OF assms(10)] by blast
  have e6: "h_step u pkg i6 (s6, ?h6) = Some (s7, ?h7)" using s7(1) by (simp add: h_step_def)
  have "h_run u pkg (i0 # i1 # i2 # i3 # i4 # i5 # i6 # rest) (s, h) = h_run u pkg rest (s7, ?h7)"
    by (simp only: h_run_Cons [OF e0] h_run_Cons [OF e1] h_run_Cons [OF e2] h_run_Cons [OF e3] h_run_Cons [OF e4]
        h_run_Cons [OF e5] h_run_Cons [OF e6])
  moreover have "?b \<longrightarrow> s_limiter s7 = s_limiter s" using s7(3) s6(3) s5(3) s3(4) by auto
  moreover have "s_store s7 = s_store s" using s7(2) s6(2) store5 by simp
  ultimately show ?thesis using assms(12) by (intro exI [of _ s7] exI [of _ ?h7]) simp
qed

text \<open>
  C3: a permitted client gets the answer. When a slot is free, the access list does not deny the
  source, the limiter (if any) lets it pass, and the client sends a non-empty query line within
  the size limit and before the read deadline, and takes the reply, it receives exactly the text that \<open>answer\<close> computes from the current store,
  and the connection counts as a hit exactly when that text has objects. The store is not
  changed, and a source that the access list allows explicitly takes no token from the limiter.
\<close>

theorem permitted_client_answered:
  assumes "int (s_sem s) < cfg_MaxConcurrent (s_cfg s)" and "\<not> in_done i0"
    and "MatchExplicit (s_acl s) (remoteAddr r) = (act, explicit)" and "act \<noteq> ActionDeny"
    and "passes_limit pkg (in_now i2) (remoteAddr r) (explicit \<and> act = ActionAllow) s"
    and "read_line (cfg_MaxQueryBytes (s_cfg s)) (in_now i4) (Some (in_now i3 + cfg_ReadTimeout (s_cfg s))) (in_eof i4) (in_data i4) =
      Some (line, err)" and "line \<noteq> []"
    and "parseQuery line = (q, flags)" and "q \<noteq> []" and "in_write i6 = WroteAll"
    and "handle u pkg now r [i0, i1, i2, i3, i4, i5, i6, i7] s = Some (s', h')"
  shows "h_sent h' = fst (answer u (s_store s) q flags) \<and>
    h_class h' = (if snd (answer u (s_store s) q flags) = 0 then ''miss'' else ''hit'') \<and>
    s_store s' = s_store s \<and> (explicit \<and> act = ActionAllow \<longrightarrow> s_limiter s' = s_limiter s)"
proof -
  obtain s1 h where start: "handle_start now r s = (s1, h)" by fastforce
  note f = handle_start_facts [OF start]
  have sent: "h_sent h = []" using f(1,3) by (simp add: handler_ok_def)
  have lim: "passes_limit pkg (in_now i2) (h_src h) (explicit \<and> act = ActionAllow) s1"
    using assms(5) f by (simp add: passes_limit_def)
  obtain s7 h7 where run: "h_run u pkg [i0, i1, i2, i3, i4, i5, i6, i7] (s1, h) = h_run u pkg [i7] (s7, h7)" "h_phase h7 = PFinish"
    "h_sent h7 = fst (answer u (s_store s1) q flags)"
    "h_class h7 = (if snd (answer u (s_store s1) q flags) = 0 then ''miss'' else ''hit'')"
    "s_store s7 = s_store s1" "explicit \<and> act = ActionAllow \<longrightarrow> s_limiter s7 = s_limiter s1"
    using served_run [of s1 i0 h act explicit pkg i2 i4 i3 line err q flags i6 u i1 i5 "[i7]"] assms f sent lim by auto
  have "finish i7 s7 h7 = Some (s', h')"
    using assms(11) run(1,2) by (simp add: handle_def start h_step_def split: option.splits)
  from finish_Some [OF this] run f show ?thesis by simp
qed

theorem permitted_client_answered_witness:
  "\<exists>s' h'. handle ascii_unicode counting_pkg 0 demo_remote (replicate 8 demo_input) demo_server = Some (s', h') \<and> h_class h' = ''miss''"
proof -
  have "8 \<le> length (replicate 8 demo_input)" "\<forall>i \<in> set (replicate 8 demo_input). 0 \<le> in_tnow i"
    by (simp_all add: demo_input_def)
  moreover have "0 < cfg_WriteTimeout (s_cfg demo_server)" by (simp add: demo_server_def demo_cfg_def)
  ultimately have "\<exists>s' h'. handle ascii_unicode counting_pkg 0 demo_remote (replicate 8 demo_input) demo_server = Some (s', h')"
    using handle_returns [of demo_server "replicate 8 demo_input", OF _ _ _ demo_ready, of ascii_unicode counting_pkg 0 demo_remote] by blast
  then obtain s' h' where H: "handle ascii_unicode counting_pkg 0 demo_remote (replicate 8 demo_input) demo_server = Some (s', h')" by blast
  have eight: "replicate 8 demo_input = [demo_input, demo_input, demo_input, demo_input, demo_input, demo_input, demo_input, demo_input]"
    by (simp add: numeral_eq_Suc)
  have m: "MatchExplicit (s_acl demo_server) (remoteAddr demo_remote) = (ActionAllow, False)" by code_simp
  have l: "read_line (cfg_MaxQueryBytes (s_cfg demo_server)) (in_now demo_input)
      (Some (in_now demo_input + cfg_ReadTimeout (s_cfg demo_server))) (in_eof demo_input) (in_data demo_input) = Some (''AS1'' @ [CHR 0x0A], False)" by code_simp
  have p: "parseQuery (''AS1'' @ [CHR 0x0A]) = (''AS1'', no_flags)" by code_simp
  have "int (s_sem demo_server) < cfg_MaxConcurrent (s_cfg demo_server)" "\<not> in_done demo_input" "in_write demo_input = WroteAll"
    "passes_limit counting_pkg (in_now demo_input) (remoteAddr demo_remote) (False \<and> ActionAllow = ActionAllow) demo_server"
    by (simp_all add: demo_server_def demo_cfg_def demo_input_def passes_limit_def)
  note facts = this
  have none: "first_hit Ps [] = []" for Ps by (induction Ps) simp_all
  have a: "store_Lookup ascii_unicode (Current NewManager) ''AS1'' = []"
    using store_Lookup_spec [of ascii_unicode "[]" "''AS1''"] 
    by (simp add: store_of_def insert_all_def NewManager_def Current_def spec_Lookup_def entries_def covering_def Let_def
        none split: option.splits)
  have "snd (answer ascii_unicode (s_store demo_server) ''AS1'' no_flags) = 0"
    by (simp add: answer_def a demo_server_def)
  with permitted_client_answered [OF facts(1,2) m _ facts(4) l _ p _ facts(3) H [unfolded eight]] H
  show ?thesis by auto
qed

end
