(* ===== verification/Listener.thy ===== *)
theory Listener
  imports Prelude
begin

section \<open>The listener and its rotation (internal/server/server.go, Run and Rebind)\<close>

text \<open>
  Listening sockets are numbered; \<open>l_socks\<close> holds the open ones with their addresses. \<open>Rebind\<close>
  holds the mutex from start to end, so it is one step. The shutdown watcher takes two: it marks
  the server closed and takes the listener under the mutex, and closes that socket (\<open>l_closing\<close>
  until then) afterwards. The accept loop takes one step to read the listener and one for the
  outcome of \<open>Accept\<close>. Whether an address can be bound is decided by the environment. Handlers
  are the subject of \<open>Server\<close>: here an accepted connection is the number of the socket it came
  in on, and \<open>l_running\<close> counts the handlers the wait group of \<open>Run\<close> waits for.
\<close>

datatype accept_loop = NotStarted | LoopTop | Accepting nat | Draining | Returned | ListenFailed

record listener =
  l_cur :: "nat option"
  l_bind :: string
  l_closed :: bool
  l_closing :: "nat option"
  l_socks :: "(nat, string) gomap"
  l_next :: nat
  l_ctx_done :: bool
  l_loop :: accept_loop
  l_accepted :: "nat list"
  l_running :: nat

definition listener_New :: "string \<Rightarrow> listener" where
  "listener_New addr =
     \<lparr>l_cur = None, l_bind = addr, l_closed = False, l_closing = None, l_socks = Mapping.empty, l_next = 0, l_ctx_done = False,
      l_loop = NotStarted, l_accepted = [], l_running = 0\<rparr>"

definition BindAddr :: "listener \<Rightarrow> string" where
  "BindAddr s = l_bind s"

definition listen :: "string \<Rightarrow> listener \<Rightarrow> listener \<times> nat" where
  "listen addr s = (s\<lparr>l_socks := Mapping.update (l_next s) addr (l_socks s), l_next := l_next s + 1\<rparr>, l_next s)"

definition close_sock :: "nat option \<Rightarrow> listener \<Rightarrow> listener" where
  "close_sock ln s = (case ln of None \<Rightarrow> s | Some k \<Rightarrow> s\<lparr>l_socks := Mapping.delete k (l_socks s)\<rparr>)"

datatype 'e rebind_error = ShuttingDown | ListenError string 'e

definition Rebind :: "string \<Rightarrow> 'e option \<Rightarrow> listener \<Rightarrow> listener \<times> 'e rebind_error option" where
  "Rebind addr listen_err s =
     (if l_closed s then (s, Some ShuttingDown)
      else if addr = l_bind s \<and> l_cur s \<noteq> None then (s, None)
      else case listen_err of
             Some e \<Rightarrow> (s, Some (ListenError addr e))
           | None \<Rightarrow>
               (let (s1, newLn) = listen addr s;
                    oldLn = l_cur s1;
                    s2 = s1\<lparr>l_cur := Some newLn, l_bind := addr\<rparr>
                in (close_sock oldLn s2, None)))"

text \<open>The start of \<open>Run\<close> on the configured address.\<close>

definition run_start :: "string \<Rightarrow> 'e option \<Rightarrow> listener \<Rightarrow> listener" where
  "run_start cfg_bind listen_err s =
     (case listen_err of
        Some e \<Rightarrow> s\<lparr>l_loop := ListenFailed\<rparr>
      | None \<Rightarrow>
          (let (s1, initial) = listen cfg_bind s
           in s1\<lparr>l_cur := Some initial, l_bind := cfg_bind, l_loop := LoopTop\<rparr>))"

text \<open>The shutdown watcher, once the context is done: what it does under the mutex, and the rest.\<close>

definition watcher :: "listener \<Rightarrow> listener" where
  "watcher s = s\<lparr>l_closed := True, l_closing := l_cur s, l_cur := None\<rparr>"

definition watcher_close :: "listener \<Rightarrow> listener" where
  "watcher_close s = close_sock (l_closing s) (s\<lparr>l_closing := None\<rparr>)"

text \<open>The accept loop; \<open>Draining\<close> is the call of \<open>wg.Wait\<close> before each return.\<close>

definition loop_top :: "listener \<Rightarrow> listener" where
  "loop_top s =
     (case l_cur s of
        None \<Rightarrow> s\<lparr>l_loop := Draining\<rparr>
      | Some ln \<Rightarrow> if l_closed s then s\<lparr>l_loop := Draining\<rparr> else s\<lparr>l_loop := Accepting ln\<rparr>)"

definition accept_ok :: "nat \<Rightarrow> listener \<Rightarrow> listener" where
  "accept_ok ln s = s\<lparr>l_loop := LoopTop, l_accepted := l_accepted s @ [ln], l_running := l_running s + 1\<rparr>"

text \<open>\<open>Accept\<close> on a closed socket reports \<open>net.ErrClosed\<close>; any other error is transient.\<close>

definition accept_failed :: "nat \<Rightarrow> listener \<Rightarrow> listener" where
  "accept_failed ln s =
     (let isClosed = l_closed s; rotated = (l_cur s \<noteq> Some ln) in
      if isClosed \<or> l_ctx_done s then s\<lparr>l_loop := Draining\<rparr>
      else if rotated then s\<lparr>l_loop := LoopTop\<rparr>
      else if Mapping.lookup (l_socks s) ln = None then s\<lparr>l_loop := Draining\<rparr>
      else s\<lparr>l_loop := LoopTop\<rparr>)"

text \<open>
  The steps of the goroutines that \<open>Run\<close> consists of: the accept loop, the end of a handler
  (\<open>wg.Done\<close>), and the return once the wait group is empty.
\<close>

inductive loop_step :: "listener \<Rightarrow> listener \<Rightarrow> bool" where
  top: "l_loop s = LoopTop \<Longrightarrow> loop_step s (loop_top s)"
| accept: "l_loop s = Accepting ln \<Longrightarrow> Mapping.lookup (l_socks s) ln \<noteq> None \<Longrightarrow> loop_step s (accept_ok ln s)"
| fail: "l_loop s = Accepting ln \<Longrightarrow> loop_step s (accept_failed ln s)"
| handled: "0 < l_running s \<Longrightarrow> loop_step s (s\<lparr>l_running := l_running s - 1\<rparr>)"
| drained: "l_loop s = Draining \<Longrightarrow> l_running s = 0 \<Longrightarrow> loop_step s (s\<lparr>l_loop := Returned\<rparr>)"

inductive ln_step :: "string \<Rightarrow> listener \<Rightarrow> listener \<Rightarrow> bool" for cfg_bind where
  run: "l_loop s = NotStarted \<Longrightarrow> ln_step cfg_bind s (run_start cfg_bind (err :: string option) s)"
| rebind: "ln_step cfg_bind s (fst (Rebind addr (err :: string option) s))"
| cancelled: "ln_step cfg_bind s (s\<lparr>l_ctx_done := True\<rparr>)"
| watch: "l_ctx_done s \<Longrightarrow> \<not> l_closed s \<Longrightarrow> l_loop s \<notin> {NotStarted, ListenFailed} \<Longrightarrow> ln_step cfg_bind s (watcher s)"
| watch_close: "l_closing s \<noteq> None \<Longrightarrow> ln_step cfg_bind s (watcher_close s)"
| loop: "loop_step s s' \<Longrightarrow> ln_step cfg_bind s s'"

inductive ln_reach :: "string \<Rightarrow> listener \<Rightarrow> listener \<Rightarrow> bool" for cfg_bind s0 where
  init: "ln_reach cfg_bind s0 s0"
| step: "ln_reach cfg_bind s0 s \<Longrightarrow> ln_step cfg_bind s s' \<Longrightarrow> ln_reach cfg_bind s0 s'"

inductive_cases ln_stepE: "ln_step cfg_bind s s'"
inductive_cases loop_stepE: "loop_step s s'"

subsection \<open>Before \<open>Run\<close>\<close>

text \<open>A reload can rebind before \<open>Run\<close> listens: then a socket is open, and it is the current one.\<close>

definition pre_ok :: "listener \<Rightarrow> bool" where
  "pre_ok s \<longleftrightarrow> \<not> l_closed s \<and> l_closing s = None \<and> Mapping.keys (l_socks s) = set_option (l_cur s) \<and>
     (\<forall>k \<in> set_option (l_cur s). k < l_next s) \<and> l_running s = 0 \<and> l_accepted s = []"

lemma pre_ok_New: "pre_ok (listener_New b)"
  by (simp add: pre_ok_def listener_New_def)

lemma Rebind_loop [simp]:
  "l_loop (fst (Rebind addr err s)) = l_loop s" "l_closed (fst (Rebind addr err s)) = l_closed s"
  "l_running (fst (Rebind addr err s)) = l_running s" "l_ctx_done (fst (Rebind addr err s)) = l_ctx_done s"
  "l_accepted (fst (Rebind addr err s)) = l_accepted s" "l_closing (fst (Rebind addr err s)) = l_closing s"
  by (auto simp: Rebind_def listen_def close_sock_def Let_def split: option.split)

lemma Rebind_pre: "pre_ok s \<Longrightarrow> pre_ok (fst (Rebind addr err s))"
  by (auto simp: Rebind_def pre_ok_def listen_def close_sock_def Let_def gomap_simps split: option.splits)

lemma run_start_loop [simp]: "l_loop (run_start b err s) \<noteq> NotStarted"
  by (simp add: run_start_def listen_def split: option.split)

lemma loop_step_started: "loop_step s s' \<Longrightarrow> l_loop s' = NotStarted \<Longrightarrow> l_loop s = NotStarted \<and> 0 < l_running s"
  by (induction rule: loop_step.induct) (auto simp: loop_top_def accept_ok_def accept_failed_def Let_def split: option.splits if_splits)

lemma ln_step_pre:
  assumes "ln_step b s s'" "l_loop s = NotStarted \<longrightarrow> pre_ok s" "l_loop s' = NotStarted"
  shows "pre_ok s'"
  using assms(1)
proof (cases rule: ln_step.cases)
  case (run err)
  then show ?thesis using assms(3) by simp
next
  case (rebind addr err)
  then show ?thesis using assms(2,3) Rebind_pre by simp
next
  case cancelled
  then show ?thesis using assms(2,3) by (simp add: pre_ok_def)
next
  case watch
  then show ?thesis using assms(3) by (simp add: watcher_def)
next
  case watch_close
  then have "l_loop s = NotStarted" using assms(3) by (simp add: watcher_close_def close_sock_def split: option.splits)
  with watch_close assms(2) show ?thesis by (simp add: pre_ok_def)
next
  case loop
  then have "l_loop s = NotStarted \<and> 0 < l_running s" using loop_step_started assms(3) by blast
  with assms(2) show ?thesis by (simp add: pre_ok_def)
qed

lemma pre_reach: "ln_reach b (listener_New b) s \<Longrightarrow> l_loop s = NotStarted \<longrightarrow> pre_ok s"
proof (induction rule: ln_reach.induct)
  case init
  show ?case by (simp add: pre_ok_New)
next
  case (step s s')
  then show ?case using ln_step_pre by blast
qed

subsection \<open>The invariant\<close>

text \<open>\<open>lk\<close> is the socket that was current when \<open>Run\<close> started: nobody closes it.\<close>

definition ln_ok :: "nat option \<Rightarrow> listener \<Rightarrow> bool" where
  "ln_ok lk s \<longleftrightarrow>
     l_loop s \<notin> {NotStarted, ListenFailed} \<and>
     (\<forall>k \<in> Mapping.keys (l_socks s). k < l_next s) \<and>
     (case l_cur s of
        None \<Rightarrow> l_closed s \<and> Mapping.keys (l_socks s) = set_option lk \<union> set_option (l_closing s) \<and>
          set_option lk \<inter> set_option (l_closing s) = {}
      | Some k \<Rightarrow> \<not> l_closed s \<and> l_closing s = None \<and> lk \<noteq> Some k \<and> Mapping.keys (l_socks s) = insert k (set_option lk) \<and>
          Mapping.lookup (l_socks s) k = Some (l_bind s)) \<and>
     (l_closed s \<or> l_loop s \<in> {Draining, Returned} \<longrightarrow> l_ctx_done s) \<and>
     (l_loop s = Returned \<longrightarrow> l_running s = 0) \<and>
     (\<forall>k. lk = Some k \<longrightarrow> l_loop s \<noteq> Accepting k \<and> k \<notin> set (l_accepted s))"

lemma run_start_ok:
  assumes "pre_ok s"
  shows "ln_ok (l_cur s) (run_start b (None :: string option) s)"
  using assms by (cases "l_cur s") (auto simp: run_start_def listen_def ln_ok_def pre_ok_def gomap_simps)

lemma Rebind_ok: "ln_ok lk s \<Longrightarrow> ln_ok lk (fst (Rebind addr err s))"
  by (cases lk) (auto simp: Rebind_def ln_ok_def listen_def close_sock_def Let_def gomap_simps split: option.splits)

lemma watcher_ok: "ln_ok lk s \<Longrightarrow> l_ctx_done s \<Longrightarrow> \<not> l_closed s \<Longrightarrow> ln_ok lk (watcher s)"
  by (cases lk) (auto simp: ln_ok_def watcher_def split: option.splits)

lemma watcher_close_ok: "ln_ok lk s \<Longrightarrow> ln_ok lk (watcher_close s)"
  by (cases lk) (auto simp: ln_ok_def watcher_close_def close_sock_def gomap_simps split: option.splits)

lemma open_current:
  assumes "ln_ok lk s" "l_loop s = Accepting ln" "Mapping.lookup (l_socks s) ln \<noteq> None"
  shows "l_cur s = Some ln \<or> l_closing s = Some ln"
proof -
  have "ln \<in> Mapping.keys (l_socks s)" using assms(3) by (simp add: gmap_keys)
  with assms(1,2) show ?thesis by (auto simp: ln_ok_def split: option.splits)
qed

lemma loop_step_ok: "loop_step s s' \<Longrightarrow> ln_ok lk s \<Longrightarrow> ln_ok lk s'"
proof (induction rule: loop_step.induct)
  case (fail s ln)
  then show ?case by (auto simp: accept_failed_def Let_def ln_ok_def gmap_keys split: option.splits)
qed (auto simp: ln_ok_def loop_top_def accept_ok_def split: option.splits)

lemma ln_step_ok: "ln_step b s s' \<Longrightarrow> ln_ok lk s \<Longrightarrow> ln_ok lk s'"
proof (induction rule: ln_step.induct)
  case (run s err)
  then show ?case by (simp add: ln_ok_def)
next
  case (cancelled s)
  then show ?case by (simp add: ln_ok_def split: option.splits)
qed (use Rebind_ok watcher_ok watcher_close_ok loop_step_ok in blast)+

lemma ln_reach_ok: "ln_reach b s0 s \<Longrightarrow> ln_ok lk s0 \<Longrightarrow> ln_ok lk s"
  by (induction rule: ln_reach.induct) (auto intro: ln_step_ok)

lemma started_ok:
  assumes "ln_reach b (listener_New b) s0" "l_loop s0 = NotStarted" "ln_reach b (run_start b (None :: string option) s0) s"
  shows "ln_ok (l_cur s0) s"
  using pre_reach [OF assms(1)] assms(2) ln_reach_ok [OF assms(3) run_start_ok] by blast

text \<open>
  C14: rotation never loses the listener. From the start of the program, with rebinds (successful
  or failing) before and after \<open>Run\<close> opens its first listener, and under every interleaving with
  connections, transient errors and shutdown: until shutdown the current socket is open and
  bound to the reported address, and the only other open socket is one that a rebind opened
  before \<open>Run\<close>, if there was one; once the server is marked closed only that one is open, and
  the last listener until the watcher has closed it. No connection is ever accepted on the
  former, connections are only accepted on the current listener or on one that is about to be
  closed, and the accept loop does not end unless the context was cancelled.
\<close>

theorem rotation_keeps_listener:
  assumes "ln_reach cfg_bind (listener_New cfg_bind) s0" and "l_loop s0 = NotStarted"
    and "ln_reach cfg_bind (run_start cfg_bind (None :: string option) s0) s"
  shows "(if l_closed s then Mapping.keys (l_socks s) = set_option (l_cur s0) \<union> set_option (l_closing s)
     else \<exists>k. l_cur s = Some k \<and> k \<notin> set_option (l_cur s0) \<and> Mapping.keys (l_socks s) = insert k (set_option (l_cur s0)) \<and>
       Mapping.lookup (l_socks s) k = Some (BindAddr s)) \<and>
    (l_closed s \<or> l_loop s \<in> {Draining, Returned} \<longrightarrow> l_ctx_done s) \<and>
    (\<forall>ln. l_loop s = Accepting ln \<longrightarrow> Mapping.lookup (l_socks s) ln \<noteq> None \<longrightarrow> l_cur s = Some ln \<or> l_closing s = Some ln) \<and>
    set (l_accepted s) \<inter> set_option (l_cur s0) = {}"
proof -
  have ok: "ln_ok (l_cur s0) s" using started_ok [OF assms] .
  moreover have "\<forall>ln. l_loop s = Accepting ln \<longrightarrow> Mapping.lookup (l_socks s) ln \<noteq> None \<longrightarrow> l_cur s = Some ln \<or> l_closing s = Some ln"
    using open_current [OF ok] by blast
  ultimately show ?thesis by (cases "l_cur s0") (auto simp: ln_ok_def BindAddr_def split: option.splits)
qed

theorem rotation_keeps_listener_witness:
  "\<exists>s. ln_reach '':43'' (run_start '':43'' (None :: string option) (listener_New '':43'')) s \<and> BindAddr s = '':4343'' \<and>
     Mapping.keys (l_socks s) = {1}"
proof -
  let ?start = "run_start '':43'' (None :: string option) (listener_New '':43'')"
  let ?s = "fst (Rebind '':4343'' (None :: string option) ?start)"
  have new: "l_loop (listener_New '':43'') = NotStarted" by (simp add: listener_New_def)
  have r: "ln_reach '':43'' ?start ?s" by (rule ln_reach.step [OF ln_reach.init ln_step.rebind])
  have "l_cur ?s = Some 1" "BindAddr ?s = '':4343''" "\<not> l_closed ?s" "l_cur (listener_New '':43'') = None"
    by (simp_all add: Rebind_def run_start_def listener_New_def listen_def close_sock_def BindAddr_def Let_def)
  with rotation_keeps_listener [OF ln_reach.init new r] r show ?thesis by auto
qed

subsection \<open>Shutdown\<close>

text \<open>How many steps of the goroutines are left at most, once the listener is closed.\<close>

definition remaining :: "listener \<Rightarrow> nat" where
  "remaining s = l_running s + (case l_loop s of Returned \<Rightarrow> 0 | Draining \<Rightarrow> 1 | _ \<Rightarrow> 2)"

lemma closed_no_accept:
  assumes "ln_ok lk s" "l_closed s" "l_closing s = None" "l_loop s = Accepting ln"
  shows "Mapping.lookup (l_socks s) ln = None"
  using open_current [OF assms(1,4)] assms(1-3) by (auto simp: ln_ok_def split: option.splits)

lemma loop_step_closed:
  assumes "loop_step s s'" "ln_ok lk s" "l_closed s" "l_closing s = None"
  shows "l_closed s' \<and> l_closing s' = None \<and> remaining s' < remaining s"
  using assms(1)
proof (cases rule: loop_step.cases)
  case top
  then show ?thesis using assms(3,4) by (auto simp: loop_top_def remaining_def split: option.splits)
next
  case (accept ln)
  then show ?thesis using closed_no_accept [OF assms(2-4)] by simp
next
  case (fail ln)
  then show ?thesis using assms(3,4) by (simp add: accept_failed_def remaining_def)
next
  case handled
  then show ?thesis using assms(3,4) by (simp add: remaining_def)
next
  case drained
  then show ?thesis using assms(3,4) by (simp add: remaining_def)
qed

lemma ln_step_closed:
  assumes "ln_step b s s'" "ln_ok lk s" "l_closed s" "l_closing s = None"
  shows "l_closed s' \<and> l_closing s' = None \<and> remaining s' \<le> remaining s"
  using assms(1)
proof (cases rule: ln_step.cases)
  case loop
  then show ?thesis using loop_step_closed [OF _ assms(2-4)] by fastforce
qed (use assms(2-4) in \<open>auto simp: ln_ok_def remaining_def split: option.splits\<close>)

lemma loop_stuck:
  assumes "ln_ok lk s" "\<nexists>s'. loop_step s s'"
  shows "l_loop s = Returned \<and> l_running s = 0"
proof -
  have run: "l_running s = 0" using assms(2) loop_step.handled [of s] by blast
  moreover have "l_loop s \<noteq> LoopTop" using assms(2) loop_step.top by blast
  moreover have "l_loop s \<noteq> Accepting ln" for ln using assms(2) loop_step.fail by blast
  moreover have "l_loop s \<noteq> Draining" using assms(2) loop_step.drained run by blast
  ultimately show ?thesis using assms(1) by (cases "l_loop s") (auto simp: ln_ok_def)
qed

lemma loop_run_closed:
  "(loop_step ^^ n) s s' \<Longrightarrow> ln_ok lk s \<Longrightarrow> l_closed s \<Longrightarrow> l_closing s = None \<Longrightarrow>
    n + remaining s' \<le> remaining s \<and> ln_ok lk s' \<and> l_closed s' \<and> l_closing s' = None"
proof (induction n arbitrary: s')
  case (Suc n)
  then obtain t where t: "(loop_step ^^ n) s t" "loop_step t s'" by auto
  note IH = Suc.IH [OF t(1) Suc.prems(2-4)]
  have "l_closed s' \<and> l_closing s' = None \<and> remaining s' < remaining t" "ln_ok lk s'"
    using IH loop_step_closed [OF t(2)] loop_step_ok [OF t(2)] by auto
  with IH show ?case by simp
qed simp

text \<open>
  C15: shutdown ends \<open>Run\<close>. Once the watcher has closed the listener, no socket is open but one
  that a rebind leaked before \<open>Run\<close>, no rebind opens another, and the goroutines of \<open>Run\<close> (the
  accept loop, which waits for the running handlers, and these) can take at most two steps
  more than there are handlers running; when none of them can go on, every handler has ended
  and \<open>Run\<close> has returned. Nothing that happens besides delays this.
\<close>

theorem shutdown_ends_loop:
  assumes "ln_reach cfg_bind (listener_New cfg_bind) s0" and "l_loop s0 = NotStarted"
    and "ln_reach cfg_bind (run_start cfg_bind (None :: string option) s0) s" and "l_closed s" and "l_closing s = None"
  shows "Mapping.keys (l_socks s) = set_option (l_cur s0) \<and> Rebind addr (err :: 'e option) s = (s, Some ShuttingDown) \<and>
    (\<forall>n s'. (loop_step ^^ n) s s' \<longrightarrow> n \<le> l_running s + 2 \<and>
       ((\<nexists>s''. loop_step s' s'') \<longrightarrow> l_loop s' = Returned \<and> l_running s' = 0)) \<and>
    (\<forall>s'. ln_step cfg_bind s s' \<longrightarrow> l_closed s' \<and> l_closing s' = None \<and> remaining s' \<le> remaining s)"
proof -
  have ok: "ln_ok (l_cur s0) s" using started_ok [OF assms(1-3)] .
  have "remaining s \<le> l_running s + 2" by (simp add: remaining_def split: accept_loop.split)
  then have "n \<le> l_running s + 2 \<and> ((\<nexists>s''. loop_step s' s'') \<longrightarrow> l_loop s' = Returned \<and> l_running s' = 0)"
    if "(loop_step ^^ n) s s'" for n s'
    using loop_run_closed [OF that ok assms(4,5)] loop_stuck by fastforce
  moreover have "\<forall>s'. ln_step cfg_bind s s' \<longrightarrow> l_closed s' \<and> l_closing s' = None \<and> remaining s' \<le> remaining s"
    using ln_step_closed [OF _ ok assms(4,5)] by blast
  moreover have "Mapping.keys (l_socks s) = set_option (l_cur s0)"
    using ok assms(4,5) by (auto simp: ln_ok_def split: option.splits)
  ultimately show ?thesis using assms(4) by (simp add: Rebind_def)
qed

text \<open>A listener that is closed while one handler runs returns after three steps.\<close>

theorem shutdown_ends_loop_witness:
  "\<exists>s. ln_reach '':43'' (run_start '':43'' (None :: string option) (listener_New '':43'')) s \<and> l_closed s \<and>
     Mapping.keys (l_socks s) = {} \<and> l_running s = 1 \<and> (\<forall>n s'. (loop_step ^^ n) s s' \<longrightarrow> n \<le> 3)"
proof -
  let ?begun = "run_start '':43'' (None :: string option) (listener_New '':43'')"
  let ?accepting = "loop_top ?begun"
  let ?serving = "accept_ok 0 ?accepting"
  let ?cancelled = "?serving\<lparr>l_ctx_done := True\<rparr>"
  let ?marked = "watcher ?cancelled"
  let ?closed = "watcher_close ?marked"
  note defs = run_start_def listener_New_def listen_def loop_top_def accept_ok_def watcher_def watcher_close_def close_sock_def
  have new: "l_loop (listener_New '':43'') = NotStarted" by (simp add: listener_New_def)
  have "ln_reach '':43'' ?begun ?accepting"
    by (rule ln_reach.step [OF ln_reach.init ln_step.loop [OF loop_step.top]]) (simp add: defs)
  then have "ln_reach '':43'' ?begun ?serving"
    by (rule ln_reach.step [OF _ ln_step.loop [OF loop_step.accept]]) (simp_all add: defs gomap_simps)
  then have "ln_reach '':43'' ?begun ?cancelled" by (rule ln_reach.step [OF _ ln_step.cancelled])
  then have "ln_reach '':43'' ?begun ?marked"
    by (rule ln_reach.step) (rule ln_step.watch, simp_all add: defs)
  then have r: "ln_reach '':43'' ?begun ?closed"
    by (rule ln_reach.step) (rule ln_step.watch_close, simp add: defs)
  have c: "l_closed ?closed" "l_closing ?closed = None" and n: "l_running ?closed = 1"
    and l: "l_cur (listener_New '':43'') = None" by (simp_all add: defs)
  note ended = shutdown_ends_loop [OF ln_reach.init new r c, of "''''" "None :: unit option"]
  have "Mapping.keys (l_socks ?closed) = {}" using conjunct1 [OF ended] unfolding l by simp
  moreover have "\<forall>n s'. (loop_step ^^ n) ?closed s' \<longrightarrow> n \<le> l_running ?closed + 2" using ended by blast
  then have "\<forall>n s'. (loop_step ^^ n) ?closed s' \<longrightarrow> n \<le> 3" unfolding n by (simp add: numeral_eq_Suc)
  ultimately show ?thesis using r c(1) n by blast
qed

text \<open>
  A rebind before \<open>Run\<close> leaks a socket. The program starts the goroutine that handles SIGHUP
  before it calls \<open>Run\<close>, and \<open>Run\<close> listens on the address it was started with and overwrites
  the listener. If a reload rebinds in between, the socket it opened stays open with nobody
  accepting on it, and the program serves the old address although the reload reported success.
\<close>

theorem early_rebind_leaks:
  "a \<noteq> b \<longrightarrow>
     (\<exists>s. ln_reach b (listener_New b) s \<and> snd (Rebind a (None :: string option) (listener_New b)) = None \<and> l_loop s = LoopTop \<and>
        Mapping.lookup (l_socks s) 0 = Some a \<and> l_cur s = Some 1 \<and> BindAddr s = b)"
proof -
  let ?s1 = "fst (Rebind a (None :: string option) (listener_New b))"
  let ?s2 = "run_start b (None :: string option) ?s1"
  have "l_loop ?s1 = NotStarted"
    by (simp add: Rebind_def listener_New_def listen_def close_sock_def Let_def)
  then have "ln_reach b (listener_New b) ?s2"
    by (intro ln_reach.step [OF ln_reach.step [OF ln_reach.init ln_step.rebind] ln_step.run])
  moreover have "snd (Rebind a (None :: string option) (listener_New b)) = None" "l_loop ?s2 = LoopTop"
    "Mapping.lookup (l_socks ?s2) 0 = Some a" "l_cur ?s2 = Some 1" "BindAddr ?s2 = b"
    by (simp_all add: Rebind_def listener_New_def listen_def close_sock_def run_start_def BindAddr_def Let_def gomap_simps)
  ultimately show ?thesis by blast
qed

theorem early_rebind_leaks_witness:
  "\<exists>s. ln_reach '':43'' (listener_New '':43'') s \<and> Mapping.lookup (l_socks s) 0 = Some '':4343''"
  using early_rebind_leaks [of "'':4343''" "'':43''"] by auto

end
