(* ===== verification/Dumper.thy ===== *)
theory Dumper
  imports Stats File_System
begin

section \<open>The snapshot dumper (internal/stats/dumper.go)\<close>

text \<open>
  The dumper writes the serialised snapshot to a file and keeps the last payload for the HTTP
  handler. The encoder \<open>json.Marshal\<close> and the outcomes of the operating-system calls are
  parameters. A dump yields every state of the file system after each of its system calls,
  because another process may read the file at any of these points. The channel \<open>nudge\<close> has
  capacity one: \<open>None\<close> is the nil channel and \<open>Some b\<close> tells whether a value is pending.
\<close>

record Dumper =
  d_Path :: string
  d_Interval :: int
  d_last :: "string option"
  d_curIntvl :: int
  d_nudge :: "bool option"

definition dumper_Last :: "Dumper \<Rightarrow> string option" where
  "dumper_Last d = (case d_last d of None \<Rightarrow> None | Some b \<Rightarrow> Some b)"

definition SetInterval :: "int \<Rightarrow> Dumper \<Rightarrow> Dumper" where
  "SetInterval newI d =
     (if newI \<le> 0 then d
      else let d1 = d\<lparr>d_curIntvl := newI\<rparr>;
               d2 = (if d_nudge d1 = None then d1\<lparr>d_nudge := Some False\<rparr> else d1)
           in d2\<lparr>d_nudge := Some True\<rparr>)"

subsection \<open>One dump\<close>

record 'e dump_env =
  du_mkdir :: "string \<Rightarrow> 'e option"
  du_temp :: "string \<Rightarrow> string \<Rightarrow> 'e + string"
  du_write :: "string \<Rightarrow> (nat \<times> 'e) option"
  du_close :: "string \<Rightarrow> 'e option"
  du_rename :: "string \<Rightarrow> string \<Rightarrow> 'e option"
  du_remove :: "string \<Rightarrow> 'e option"
  du_now :: int

datatype 'e dump_error = MarshalError 'e | DumpOs 'e

text \<open>\<open>os.Remove\<close>, whose error is ignored.\<close>

definition remove_tmp :: "'e dump_env \<Rightarrow> string \<Rightarrow> fs \<Rightarrow> fs" where
  "remove_tmp env tmpName fs = (if du_remove env tmpName = None then Mapping.delete tmpName fs else fs)"

lemma lookup_remove_tmp [gomap_simps]:
  "Mapping.lookup (remove_tmp env t fs) p = (if p = t \<and> du_remove env t = None then None else Mapping.lookup fs p)"
  by (auto simp: remove_tmp_def gomap_simps)

definition dump_write :: "'e dump_env \<Rightarrow> string \<Rightarrow> string \<Rightarrow> fs \<Rightarrow> fs list \<times> 'e dump_error option" where
  "dump_write env path buf fs =
     (case du_mkdir env (path_Dir path) of
        Some e \<Rightarrow> ([], Some (DumpOs e))
      | None \<Rightarrow>
          (case du_temp env (path_Dir path) (path_Base path @ ''.*.tmp'') of
             Inl e \<Rightarrow> ([], Some (DumpOs e))
           | Inr tmpName \<Rightarrow>
               (let fs1 = Mapping.update tmpName \<lparr>f_data = [], f_mtime = du_now env\<rparr> fs in
                case du_write env tmpName of
                  Some (n, e) \<Rightarrow>
                    (let fs2 = Mapping.update tmpName \<lparr>f_data = take n buf, f_mtime = du_now env\<rparr> fs1
                     in ([fs1, fs2, remove_tmp env tmpName fs2], Some (DumpOs e)))
                | None \<Rightarrow>
                    (let f = \<lparr>f_data = buf, f_mtime = du_now env\<rparr>;
                         fs2 = Mapping.update tmpName f fs1 in
                     case du_close env tmpName of
                       Some e \<Rightarrow> ([fs1, fs2, remove_tmp env tmpName fs2], Some (DumpOs e))
                     | None \<Rightarrow>
                         (case du_rename env tmpName path of
                            Some e \<Rightarrow> ([fs1, fs2], Some (DumpOs e))
                          | None \<Rightarrow> ([fs1, fs2, Mapping.update path f (Mapping.delete tmpName fs2)], None))))))"

definition dumpOnce ::
    "(Snapshot \<Rightarrow> 'e + string) \<Rightarrow> 'e dump_env \<Rightarrow> Snapshot \<Rightarrow> Dumper \<Rightarrow> fs \<Rightarrow> Dumper \<times> fs list \<times> 'e dump_error option" where
  "dumpOnce marshal env snap d fs =
     (case marshal snap of
        Inl e \<Rightarrow> (d, [], Some (MarshalError e))
      | Inr buf \<Rightarrow>
          (let d' = d\<lparr>d_last := Some buf\<rparr>
           in if d_Path d = [] then (d', [], None) else (d', dump_write env (d_Path d) buf fs)))"

subsection \<open>The loop\<close>

text \<open>
  \<open>Run\<close> keeps the period of its ticker in a local variable. Its steps are the cases of the
  \<open>select\<close>; a call of \<open>SetInterval\<close> by another goroutine is a step of the system too.
\<close>

record dump_run =
  dr_dumper :: Dumper
  dr_fs :: fs
  dr_cur :: int
  dr_returned :: bool

datatype 'e dump_event = DoneEv | NudgeEv | TickEv "'e dump_env" Snapshot | SetEv int

definition do_dump :: "(Snapshot \<Rightarrow> 'e + string) \<Rightarrow> 'e dump_env \<Rightarrow> Snapshot \<Rightarrow> dump_run \<Rightarrow> dump_run" where
  "do_dump marshal env snap r =
     (let (d', sts, _) = dumpOnce marshal env snap (dr_dumper r) (dr_fs r)
      in r\<lparr>dr_dumper := d', dr_fs := last (dr_fs r # sts)\<rparr>)"

definition dumper_start ::
    "(Snapshot \<Rightarrow> 'e + string) \<Rightarrow> 'e dump_env \<Rightarrow> Snapshot \<Rightarrow> Dumper \<Rightarrow> fs \<Rightarrow> dump_run option" where
  "dumper_start marshal env snap d fs =
     (if d_Interval d \<le> 0 then None
      else let d1 = d\<lparr>d_curIntvl := d_Interval d\<rparr>;
               d2 = (if d_nudge d1 = None then d1\<lparr>d_nudge := Some False\<rparr> else d1);
               cur = d_curIntvl d2
           in Some (do_dump marshal env snap \<lparr>dr_dumper = d2, dr_fs = fs, dr_cur = cur, dr_returned = False\<rparr>))"

definition take_nudge :: "dump_run \<Rightarrow> dump_run option" where
  "take_nudge r =
     (if d_nudge (dr_dumper r) = Some True then
        let newI = d_curIntvl (dr_dumper r);
            r1 = r\<lparr>dr_dumper := (dr_dumper r)\<lparr>d_nudge := Some False\<rparr>\<rparr>
        in Some (if newI \<noteq> dr_cur r \<and> newI > 0 then r1\<lparr>dr_cur := newI\<rparr> else r1)
      else None)"

fun dumper_step :: "(Snapshot \<Rightarrow> 'e + string) \<Rightarrow> 'e dump_event \<Rightarrow> dump_run \<Rightarrow> dump_run option" where
  "dumper_step marshal (SetEv newI) r = Some (r\<lparr>dr_dumper := SetInterval newI (dr_dumper r)\<rparr>)"
| "dumper_step marshal DoneEv r = (if dr_returned r then None else Some (r\<lparr>dr_returned := True\<rparr>))"
| "dumper_step marshal NudgeEv r = (if dr_returned r then None else take_nudge r)"
| "dumper_step marshal (TickEv env snap) r = (if dr_returned r then None else Some (do_dump marshal env snap r))"

inductive dumper_reach :: "(Snapshot \<Rightarrow> 'e + string) \<Rightarrow> Dumper \<Rightarrow> Snapshot \<Rightarrow> 'e dump_event list \<Rightarrow> dump_run \<Rightarrow> bool" for marshal d snap0 where
  started: "dumper_start marshal env snap0 d fs = Some r \<Longrightarrow> dumper_reach marshal d snap0 [] r"
| stepped: "dumper_reach marshal d snap0 evs r \<Longrightarrow> dumper_step marshal ev r = Some r' \<Longrightarrow> dumper_reach marshal d snap0 (evs @ [ev]) r'"

inductive_cases dumper_reach_startE: "dumper_reach marshal d snap0 [] r"

subsection \<open>Atomicity of a dump\<close>

lemma dump_write_states:
  assumes "dump_write env path buf fs = (sts, err)"
    and "du_temp env (path_Dir path) (path_Base path @ ''.*.tmp'') = Inr tmp" and "tmp \<noteq> path" and "s \<in> set (fs # sts)"
  shows "Mapping.lookup s path = Mapping.lookup fs path \<or>
      err = None \<and> s = last sts \<and> map_option f_data (Mapping.lookup s path) = Some buf"
    and "p \<noteq> path \<Longrightarrow> p \<noteq> tmp \<Longrightarrow> Mapping.lookup s p = Mapping.lookup fs p"
  using assms
  by (auto simp: dump_write_def Let_def gomap_simps split: option.splits prod.splits)

lemma dump_write_final:
  assumes "dump_write env path buf fs = (sts, None)"
    and "du_temp env (path_Dir path) (path_Base path @ ''.*.tmp'') = Inr tmp" and "tmp \<noteq> path"
  shows "map_option f_data (Mapping.lookup (last (fs # sts)) path) = Some buf"
    "Mapping.lookup (last (fs # sts)) tmp = None"
  using assms
  by (auto simp: dump_write_def Let_def gomap_simps split: option.splits prod.splits)

text \<open>
  C24: a concurrent reader never observes a partial snapshot. At every point during a dump the
  file at the path of the dumper is the previous one or, after the rename of a dump that
  succeeds, the complete new payload; files other than it and the temporary file are never
  touched. A successful dump leaves the new payload and no temporary file, and the payload
  served over HTTP is the one that was encoded last even when the write failed.
\<close>

theorem dump_atomic:
  assumes "dumpOnce marshal env snap d fs = (d', sts, err)" and "d_Path d \<noteq> []"
    and "du_temp env (path_Dir (d_Path d)) (path_Base (d_Path d) @ ''.*.tmp'') = Inr tmp" and "tmp \<noteq> d_Path d"
  shows "(\<forall>s \<in> set (fs # sts).
      (Mapping.lookup s (d_Path d) = Mapping.lookup fs (d_Path d) \<or>
       err = None \<and> s = last sts \<and> map_option (Inr \<circ> f_data) (Mapping.lookup s (d_Path d)) = Some (marshal snap)) \<and>
      (\<forall>p. p \<noteq> d_Path d \<longrightarrow> p \<noteq> tmp \<longrightarrow> Mapping.lookup s p = Mapping.lookup fs p)) \<and>
    (err = None \<longrightarrow> map_option (Inr \<circ> f_data) (Mapping.lookup (last (fs # sts)) (d_Path d)) = Some (marshal snap) \<and>
      Mapping.lookup (last (fs # sts)) tmp = None) \<and>
    dumper_Last d' = (case marshal snap of Inr buf \<Rightarrow> Some buf | Inl _ \<Rightarrow> dumper_Last d)"
proof (cases "marshal snap")
  case (Inl e)
  with assms(1) show ?thesis by (auto simp: dumpOnce_def)
next
  case (Inr buf)
  then have w: "dump_write env (d_Path d) buf fs = (sts, err)" and d': "d' = d\<lparr>d_last := Some buf\<rparr>"
    using assms(1,2) by (auto simp: dumpOnce_def Let_def)
  have eq: "map_option (Inr \<circ> f_data) x = Some (Inr buf) \<longleftrightarrow> map_option f_data x = Some buf" for x :: "cfile option"
    by (cases x) auto
  have "err = None \<longrightarrow> map_option f_data (Mapping.lookup (last (fs # sts)) (d_Path d)) = Some buf \<and>
      Mapping.lookup (last (fs # sts)) tmp = None"
    using dump_write_final [OF _ assms(3,4)] w by blast
  moreover have "\<forall>s \<in> set (fs # sts).
      (Mapping.lookup s (d_Path d) = Mapping.lookup fs (d_Path d) \<or>
       err = None \<and> s = last sts \<and> map_option f_data (Mapping.lookup s (d_Path d)) = Some buf) \<and>
      (\<forall>p. p \<noteq> d_Path d \<longrightarrow> p \<noteq> tmp \<longrightarrow> Mapping.lookup s p = Mapping.lookup fs p)"
    using dump_write_states [OF w assms(3,4)] by blast
  ultimately show ?thesis unfolding Inr eq d' by (simp add: dumper_Last_def)
qed

text \<open>A dump on a healthy system, and one whose rename fails.\<close>

definition idle_snapshot :: Snapshot where
  "idle_snapshot = snd (reg_Snapshot 5 None (NewRegistry 0))"

definition healthy_env :: "string dump_env" where
  "healthy_env = \<lparr>du_mkdir = \<lambda>_. None, du_temp = \<lambda>dir _. Inr (dir @ ''/t''), du_write = \<lambda>_. None, du_close = \<lambda>_. None,
     du_rename = \<lambda>_ _. None, du_remove = \<lambda>_. None, du_now = 5\<rparr>"

definition idle_dumper :: Dumper where
  "idle_dumper = \<lparr>d_Path = ''/v/s.json'', d_Interval = 1, d_last = None, d_curIntvl = 0, d_nudge = None\<rparr>"

theorem dump_atomic_witness:
  "\<exists>d' sts err. dumpOnce (\<lambda>_. Inr ''{}'') healthy_env idle_snapshot idle_dumper Mapping.empty = (d', sts, err) \<and>
     dumper_Last d' = Some ''{}''"
proof -
  obtain d' sts err where eq: "dumpOnce (\<lambda>_. Inr ''{}'') healthy_env idle_snapshot idle_dumper Mapping.empty = (d', sts, err)"
    by (metis prod_cases3)
  have "d_Path idle_dumper \<noteq> []" by (simp add: idle_dumper_def)
  moreover have "du_temp healthy_env (path_Dir (d_Path idle_dumper)) (path_Base (d_Path idle_dumper) @ ''.*.tmp'') = Inr ''/v/t''"
    by code_simp
  moreover have "''/v/t'' \<noteq> d_Path idle_dumper" by (simp add: idle_dumper_def)
  ultimately show ?thesis using dump_atomic [OF eq] eq by auto
qed

text \<open>
  The one failure that leaves something behind. When the final rename fails, the temporary
  file with the complete payload stays in the directory, next to the unchanged snapshot;
  every other failure removes it, if it can be removed.
\<close>

theorem failed_dump_leftover:
  assumes "dumpOnce marshal env snap d fs = (d', sts, Some err)" and "d_Path d \<noteq> []" and "marshal snap = Inr buf"
    and "du_mkdir env (path_Dir (d_Path d)) = None"
    and "du_temp env (path_Dir (d_Path d)) (path_Base (d_Path d) @ ''.*.tmp'') = Inr tmp" and "tmp \<noteq> d_Path d"
  shows "map_option f_data (Mapping.lookup (last (fs # sts)) tmp) =
    (if du_write env tmp = None \<and> du_close env tmp = None then Some buf
     else if du_remove env tmp = None then None
     else Some (case du_write env tmp of Some (n, _) \<Rightarrow> take n buf | None \<Rightarrow> buf))"
  using assms
  by (auto simp: dumpOnce_def dump_write_def Let_def gomap_simps split: option.splits prod.splits)

theorem failed_dump_leftover_witness:
  "map_option f_data (Mapping.lookup (last (Mapping.empty #
     fst (snd (dumpOnce (\<lambda>_. Inr ''{}'') (healthy_env\<lparr>du_rename := \<lambda>_ _. Some ''denied''\<rparr>) idle_snapshot idle_dumper Mapping.empty))))
     ''/v/t'') = Some ''{}''"
proof -
  let ?env = "healthy_env\<lparr>du_rename := \<lambda>_ _. Some ''denied''\<rparr>"
  have t: "du_temp ?env (path_Dir (d_Path idle_dumper)) (path_Base (d_Path idle_dumper) @ ''.*.tmp'') = Inr ''/v/t''"
    by code_simp
  obtain d' sts err where eq: "dumpOnce (\<lambda>_. Inr ''{}'') ?env idle_snapshot idle_dumper Mapping.empty = (d', sts, err)"
    by (metis prod_cases3)
  then have "err = Some (DumpOs ''denied'')"
    using t by (auto simp: dumpOnce_def dump_write_def Let_def healthy_env_def idle_dumper_def)
  with eq t failed_dump_leftover [of "\<lambda>_. Inr ''{}''" ?env idle_snapshot idle_dumper Mapping.empty d' sts "DumpOs ''denied''" "''{}''" "''/v/t''"]
  show ?thesis by (simp add: healthy_env_def idle_dumper_def)
qed

subsection \<open>The interval\<close>

text \<open>The interval asked for: the last positive argument of \<open>SetInterval\<close>, or the configured one.\<close>

definition requested :: "int \<Rightarrow> 'e dump_event list \<Rightarrow> int" where
  "requested i0 evs = fold (\<lambda>ev i. case ev of SetEv n \<Rightarrow> if n \<le> 0 then i else n | _ \<Rightarrow> i) evs i0"

lemma requested_snoc [simp]:
  "requested i0 [] = i0"
  "requested i0 (evs @ [ev]) = (case ev of SetEv n \<Rightarrow> if n \<le> 0 then requested i0 evs else n | _ \<Rightarrow> requested i0 evs)"
  by (simp_all add: requested_def split: dump_event.split)

definition run_ok :: "int \<Rightarrow> dump_run \<Rightarrow> bool" where
  "run_ok i r \<longleftrightarrow> 0 < dr_cur r \<and> 0 < i \<and> d_curIntvl (dr_dumper r) = i \<and> d_nudge (dr_dumper r) \<noteq> None \<and>
     (d_nudge (dr_dumper r) = Some False \<longrightarrow> dr_cur r = i)"

lemma dumpOnce_keeps:
  "dumpOnce marshal env snap d fs = (d', sts, err) \<Longrightarrow> d_curIntvl d' = d_curIntvl d \<and> d_nudge d' = d_nudge d"
  by (auto simp: dumpOnce_def Let_def split: sum.splits if_splits prod.splits)

lemma do_dump_keeps [simp]:
  "dr_cur (do_dump marshal env snap r) = dr_cur r" "dr_returned (do_dump marshal env snap r) = dr_returned r"
  "d_curIntvl (dr_dumper (do_dump marshal env snap r)) = d_curIntvl (dr_dumper r)"
  "d_nudge (dr_dumper (do_dump marshal env snap r)) = d_nudge (dr_dumper r)"
proof -
  obtain d' sts err where eq: "dumpOnce marshal env snap (dr_dumper r) (dr_fs r) = (d', sts, err)"
    by (metis prod_cases3)
  show "dr_cur (do_dump marshal env snap r) = dr_cur r" "dr_returned (do_dump marshal env snap r) = dr_returned r"
    "d_curIntvl (dr_dumper (do_dump marshal env snap r)) = d_curIntvl (dr_dumper r)"
    "d_nudge (dr_dumper (do_dump marshal env snap r)) = d_nudge (dr_dumper r)"
    using dumpOnce_keeps [OF eq] by (simp_all add: do_dump_def eq)
qed

lemma run_ok_do_dump [simp]: "run_ok i (do_dump marshal env snap r) = run_ok i r"
  by (simp add: run_ok_def)

lemma run_ok_set: "run_ok i r \<Longrightarrow> run_ok (if n \<le> 0 then i else n) (r\<lparr>dr_dumper := SetInterval n (dr_dumper r)\<rparr>)"
  by (auto simp: run_ok_def SetInterval_def Let_def)

lemma run_ok_nudge: "run_ok i r \<Longrightarrow> take_nudge r = Some r' \<Longrightarrow> run_ok i r'"
  by (auto simp: run_ok_def take_nudge_def Let_def split: if_splits)

lemma dumper_start_ok: "dumper_start marshal env snap d fs = Some r \<Longrightarrow> run_ok (d_Interval d) r"
  unfolding dumper_start_def Let_def
  by (cases "d_nudge d") (auto simp: run_ok_def split: if_splits)

lemma dumper_reach_ok: "dumper_reach marshal d snap0 evs r \<Longrightarrow> run_ok (requested (d_Interval d) evs) r"
proof (induction rule: dumper_reach.induct)
  case (started env fs r)
  then show ?case by (simp add: dumper_start_ok)
next
  case (stepped evs r ev r')
  show ?case
  proof (cases ev)
    case DoneEv
    with stepped show ?thesis by (auto simp: run_ok_def split: if_splits)
  next
    case NudgeEv
    with stepped run_ok_nudge show ?thesis by (simp split: if_splits)
  next
    case (TickEv env snap)
    with stepped show ?thesis by (auto split: if_splits)
  next
    case (SetEv n)
    with stepped run_ok_set [OF stepped.IH, of n] show ?thesis by simp
  qed
qed

text \<open>
  C25: a change of the dump interval takes effect. In every reachable state of the loop the
  period of the ticker is positive (so the ticker never panics), and it is the last positive
  interval asked for unless a nudge is pending; in that case the loop, unless it returned,
  can take the nudge and then runs at that interval, however many changes were made meanwhile.
\<close>

theorem interval_takes_effect:
  assumes "dumper_reach marshal d snap0 evs r"
  shows "0 < dr_cur r \<and>
    (dr_cur r = requested (d_Interval d) evs \<or> d_nudge (dr_dumper r) = Some True) \<and>
    (d_nudge (dr_dumper r) = Some True \<longrightarrow> \<not> dr_returned r \<longrightarrow>
      (\<exists>r'. dumper_step marshal NudgeEv r = Some r' \<and> dr_cur r' = requested (d_Interval d) evs))"
proof -
  have "run_ok (requested (d_Interval d) evs) r" using dumper_reach_ok [OF assms] .
  then show ?thesis by (auto simp: run_ok_def take_nudge_def Let_def)
qed

lemma idle_run_started:
  "dumper_start (\<lambda>_. Inr ''{}'') healthy_env snap idle_dumper Mapping.empty \<noteq> None"
  by (simp add: dumper_start_def idle_dumper_def Let_def)

theorem interval_takes_effect_witness:
  "\<exists>r. dumper_reach (\<lambda>_. Inr ''{}'' :: string + string) idle_dumper idle_snapshot [SetEv 7] r \<and>
     (\<exists>r'. dumper_step (\<lambda>_. Inr ''{}'') NudgeEv r = Some r' \<and> dr_cur r' = 7)"
proof -
  obtain r where r: "dumper_start (\<lambda>_. Inr ''{}'') healthy_env idle_snapshot idle_dumper Mapping.empty = Some r"
    using idle_run_started by blast
  let ?r = "r\<lparr>dr_dumper := SetInterval 7 (dr_dumper r)\<rparr>"
  have reach: "dumper_reach (\<lambda>_. Inr ''{}'' :: string + string) idle_dumper idle_snapshot [SetEv 7] ?r"
    using dumper_reach.stepped [OF dumper_reach.started [OF r], of "SetEv 7" ?r] by simp
  have "d_nudge (dr_dumper ?r) = Some True" by (simp add: SetInterval_def Let_def)
  moreover have "\<not> dr_returned ?r"
    using r by (auto simp: dumper_start_def Let_def do_dump_def split: if_splits prod.splits)
  ultimately show ?thesis
    using interval_takes_effect [OF reach] reach unfolding requested_def by (intro exI [of _ ?r]) simp
qed

end
