(* ===== verification/Stats_Http.thy ===== *)
theory Stats_Http
  imports Dumper
begin

section \<open>The statistics HTTP server (internal/stats/http.go)\<close>

text \<open>
  The two handlers as functions from the requested path to a response. The embedded dashboard
  is an argument. \<open>ServeMux\<close> sends \<open>/stats.json\<close> to its own handler and every other path to
  the handler of the root; its redirection of paths with empty or dotted elements happens
  before the handlers and is not modelled. \<open>http_Run\<close> is the control flow of \<open>Run\<close>: the
  outcomes of reading the asset and of opening the listener, and which case of the \<open>select\<close>
  fired, are its arguments.
\<close>

record http_response =
  h_status :: nat
  h_header :: "(string \<times> string) list"
  h_body :: string

text \<open>\<open>http.Error\<close> and \<open>http.NotFound\<close>.\<close>

definition http_Error :: "string \<Rightarrow> nat \<Rightarrow> http_response" where
  "http_Error msg code =
     \<lparr>h_status = code,
      h_header = [(''Content-Type'', ''text/plain; charset=utf-8''), (''X-Content-Type-Options'', ''nosniff'')],
      h_body = msg @ [CHR 0x0A]\<rparr>"

definition http_NotFound :: http_response where
  "http_NotFound = http_Error ''404 page not found'' 404"

definition index_handler :: "string \<Rightarrow> string \<Rightarrow> http_response" where
  "index_handler indexBytes path =
     (if path \<noteq> ''/'' \<and> path \<noteq> ''/index.html'' then http_NotFound
      else \<lparr>h_status = 200, h_header = [(''Content-Type'', ''text/html; charset=utf-8''), (''Cache-Control'', ''no-cache'')],
            h_body = indexBytes\<rparr>)"

definition stats_handler :: "(Snapshot \<Rightarrow> 'e + string) \<Rightarrow> Snapshot \<Rightarrow> Dumper \<Rightarrow> http_response" where
  "stats_handler marshal snap d =
     (let reply = (\<lambda>buf. \<lparr>h_status = 200,
            h_header = [(''Content-Type'', ''application/json''), (''Cache-Control'', ''no-store''), (''Access-Control-Allow-Origin'', ''*'')],
            h_body = buf\<rparr>)
      in case dumper_Last d of
           Some buf \<Rightarrow> reply buf
         | None \<Rightarrow> (case marshal snap of Inl _ \<Rightarrow> http_Error ''snapshot error'' 500 | Inr b \<Rightarrow> reply b))"

definition http_serve :: "string \<Rightarrow> (Snapshot \<Rightarrow> 'e + string) \<Rightarrow> Snapshot \<Rightarrow> Dumper \<Rightarrow> string \<Rightarrow> http_response" where
  "http_serve indexBytes marshal snap d path =
     (if path = ''/stats.json'' then stats_handler marshal snap d else index_handler indexBytes path)"

datatype 'e http_error = LoadDashboard 'e | HttpListen string 'e | ServeError 'e

datatype 'e http_event = HttpDone | ServeReturned 'e

definition http_Run :: "('e \<Rightarrow> bool) \<Rightarrow> string \<Rightarrow> 'e + string \<Rightarrow> 'e option \<Rightarrow> 'e http_event \<Rightarrow> 'e http_error option" where
  "http_Run is_closed bind asset listen ev =
     (case asset of
        Inl e \<Rightarrow> Some (LoadDashboard e)
      | Inr _ \<Rightarrow>
          (case listen of
             Some e \<Rightarrow> Some (HttpListen bind e)
           | None \<Rightarrow>
               (case ev of
                  HttpDone \<Rightarrow> None
                | ServeReturned e \<Rightarrow> if is_closed e then None else Some (ServeError e))))"

subsection \<open>What a client sees\<close>

text \<open>The last payload whose encoding succeeded, over the dumps of a run.\<close>

definition encoded :: "(Snapshot \<Rightarrow> 'e + string) \<Rightarrow> Snapshot list \<Rightarrow> string option \<Rightarrow> string option" where
  "encoded marshal snaps b0 = fold (\<lambda>s b. case marshal s of Inr x \<Rightarrow> Some x | Inl _ \<Rightarrow> b) snaps b0"

fun tick_snaps :: "'e dump_event list \<Rightarrow> Snapshot list" where
  "tick_snaps [] = []"
| "tick_snaps (TickEv _ s # evs) = s # tick_snaps evs"
| "tick_snaps (_ # evs) = tick_snaps evs"

lemma tick_snaps_snoc [simp]:
  "tick_snaps (evs @ [ev]) = tick_snaps evs @ (case ev of TickEv _ s \<Rightarrow> [s] | _ \<Rightarrow> [])"
  by (induction evs rule: tick_snaps.induct) (simp_all split: dump_event.split)

lemma encoded_snoc:
  "encoded marshal (ss @ [s]) b = (case marshal s of Inr x \<Rightarrow> Some x | Inl _ \<Rightarrow> encoded marshal ss b)"
  by (simp add: encoded_def split: sum.split)

lemma do_dump_last:
  "d_last (dr_dumper (do_dump marshal env snap r)) = (case marshal snap of Inr x \<Rightarrow> Some x | Inl _ \<Rightarrow> d_last (dr_dumper r))"
  by (simp add: do_dump_def dumpOnce_def Let_def split: sum.splits prod.splits)

lemma reach_last:
  "dumper_reach marshal d snap0 evs r \<Longrightarrow> d_last (dr_dumper r) = encoded marshal (snap0 # tick_snaps evs) (d_last d)"
proof (induction rule: dumper_reach.induct)
  case (started env fs r)
  then show ?case
    by (cases "d_nudge d") (auto simp: dumper_start_def Let_def do_dump_last encoded_def split: if_splits sum.split)
next
  case (stepped evs r ev r')
  show ?case
  proof (cases ev)
    case (TickEv env s)
    then have "r' = do_dump marshal env s r" using stepped.hyps(2) by (simp split: if_splits)
    with TickEv stepped.IH show ?thesis
      using encoded_snoc [of marshal "snap0 # tick_snaps evs" s "d_last d"] by (simp add: do_dump_last split: sum.split)
  next
    case (SetEv n)
    with stepped show ?thesis by (auto simp: SetInterval_def Let_def)
  next
    case NudgeEv
    with stepped show ?thesis by (auto simp: take_nudge_def Let_def split: if_splits)
  next
    case DoneEv
    with stepped show ?thesis by (auto split: if_splits)
  qed
qed

text \<open>
  A client of \<open>/stats.json\<close> gets the payload that the dumper encoded last, whatever
  happened to the writes to the disk; before any payload was encoded it gets a snapshot made
  on demand, or status 500 when that cannot be encoded. Every other path but the root and
  \<open>/index.html\<close> gets status 404.
\<close>

theorem http_serves_last_payload:
  assumes "dumper_reach marshal d snap0 evs r" and "d_last d = None"
  shows "(case encoded marshal (snap0 # tick_snaps evs) None of
      Some b \<Rightarrow> h_status (http_serve idx marshal snap (dr_dumper r) ''/stats.json'') = 200 \<and>
        h_body (http_serve idx marshal snap (dr_dumper r) ''/stats.json'') = b
    | None \<Rightarrow> h_status (http_serve idx marshal snap (dr_dumper r) ''/stats.json'') = (if isl (marshal snap) then 500 else 200)) \<and>
    (path \<notin> {''/stats.json'', ''/'', ''/index.html''} \<longrightarrow> h_status (http_serve idx marshal snap (dr_dumper r) path) = 404)"
  using reach_last [OF assms(1)] assms(2)
  by (auto simp: http_serve_def stats_handler_def index_handler_def http_NotFound_def http_Error_def dumper_Last_def Let_def
      split: option.splits sum.splits)

theorem http_serves_last_payload_witness:
  "\<exists>r. dumper_reach (\<lambda>_. Inr ''{}'' :: string + string) idle_dumper snap [] r \<and>
     h_body (http_serve ''dash'' (\<lambda>_. Inr ''{}'' :: string + string) snap (dr_dumper r) ''/stats.json'') = ''{}''"
proof -
  obtain r where r: "dumper_start (\<lambda>_. Inr ''{}'') healthy_env snap idle_dumper Mapping.empty = Some r"
    using idle_run_started by blast
  have reach: "dumper_reach (\<lambda>_. Inr ''{}'' :: string + string) idle_dumper snap [] r"
    using dumper_reach.started [OF r] .
  have "d_last idle_dumper = None" by (simp add: idle_dumper_def)
  from http_serves_last_payload [OF reach this, of "''dash''" snap "''/''"] reach show ?thesis
    by (auto simp: encoded_def)
qed

end
