(* ===== verification/Logging.thy ===== *)
theory Logging
  imports Go_Strings
begin

section \<open>Log levels (internal/logx/logx.go and the logger of main.go)\<close>

text \<open>
  A logger writes a record when its level is at least the threshold in the logger's level
  variable. The output is the list of the records that were written, each with the label of
  its level; the formatting of the rest of the line and the attributes are left out. A nil
  logger is \<open>None\<close>.
\<close>

definition LevelDebug :: int where
  "LevelDebug = - 4"

definition LevelInfo :: int where
  "LevelInfo = 0"

definition LevelWarn :: int where
  "LevelWarn = 4"

definition LevelError :: int where
  "LevelError = 8"


definition LevelNotice :: int where
  "LevelNotice = 12"

lemmas level_defs = LevelDebug_def LevelInfo_def LevelWarn_def LevelError_def LevelNotice_def

text \<open>\<open>slog.Level.String\<close>.\<close>

definition Level_String :: "int \<Rightarrow> string" where
  "Level_String l =
     (let str = (\<lambda>base val. if val = 0 then base else base @ (if 0 \<le> val then ''+'' else []) @ Itoa val)
      in if l < LevelInfo then str ''DEBUG'' (l - LevelDebug)
         else if l < LevelWarn then str ''INFO'' (l - LevelInfo)
         else if l < LevelError then str ''WARN'' (l - LevelWarn)
         else str ''ERROR'' (l - LevelError))"

text \<open>The \<open>ReplaceAttr\<close> function of \<open>newLogger\<close>, applied to the level of a record.\<close>

definition replace_level :: "int \<Rightarrow> string" where
  "replace_level l = (if l = LevelNotice then ''NOTICE'' else Level_String l)"

record Logger =
  log_level :: int
  log_out :: "(string \<times> string) list"

definition newLogger :: "int \<Rightarrow> Logger" where
  "newLogger level = \<lparr>log_level = level, log_out = []\<rparr>"

definition logger_Log :: "int \<Rightarrow> string \<Rightarrow> Logger \<Rightarrow> Logger" where
  "logger_Log l msg lg = (if log_level lg \<le> l then lg\<lparr>log_out := log_out lg @ [(replace_level l, msg)]\<rparr> else lg)"

definition Notice :: "string \<Rightarrow> Logger option \<Rightarrow> Logger option" where
  "Notice msg logger = (case logger of None \<Rightarrow> None | Some lg \<Rightarrow> Some (logger_Log LevelNotice msg lg))"

definition setLevelVar :: "string \<Rightarrow> Logger \<Rightarrow> Logger" where
  "setLevelVar level lg =
     (if level \<in> {''none'', ''off'', ''silent''} then lg\<lparr>log_level := 127\<rparr>
      else if level = ''debug'' then lg\<lparr>log_level := LevelDebug\<rparr>
      else if level = ''warn'' then lg\<lparr>log_level := LevelWarn\<rparr>
      else if level = ''error'' then lg\<lparr>log_level := LevelError\<rparr>
      else lg\<lparr>log_level := LevelInfo\<rparr>)"

text \<open>
  Lifecycle notices survive every verbosity. Whatever string is configured as the log
  level, a notice is written, labelled NOTICE, unless the level is one of the three silent
  ones, and then nothing at any standard level is written either; a message of another level
  is never labelled NOTICE. A nil logger ignores notices.
\<close>

theorem notices_survive:
  "Notice msg (Some (setLevelVar level lg)) =
     Some (if level \<in> {''none'', ''off'', ''silent''} then setLevelVar level lg
           else (setLevelVar level lg)\<lparr>log_out := log_out lg @ [(''NOTICE'', msg)]\<rparr>) \<and>
   (level \<in> {''none'', ''off'', ''silent''} \<longrightarrow> l \<le> LevelNotice \<longrightarrow> logger_Log l msg (setLevelVar level lg) = setLevelVar level lg) \<and>
   (l \<noteq> LevelNotice \<longrightarrow> replace_level l \<noteq> ''NOTICE'') \<and> Notice msg None = None"
proof -
  have "replace_level l \<noteq> ''NOTICE''" if "l \<noteq> LevelNotice"
  proof -
    have "replace_level l = Level_String l" using that by (simp add: replace_level_def)
    moreover have "hd (Level_String l) \<noteq> CHR ''N''" by (simp add: Level_String_def Let_def)
    ultimately show ?thesis by (metis list.sel(1))
  qed
  then show ?thesis
    by (simp add: Notice_def setLevelVar_def logger_Log_def replace_level_def level_defs)
qed

theorem notices_survive_witness:
  "Notice ''ready'' (Some (setLevelVar ''error'' (newLogger 0))) = Some \<lparr>log_level = 8, log_out = [(''NOTICE'', ''ready'')]\<rparr> \<and>
   logger_Log 12 ''ready'' (setLevelVar ''off'' (newLogger 0)) = \<lparr>log_level = 127, log_out = []\<rparr>"
  using notices_survive [of "''ready''" "''error''" "newLogger 0" 12]
    notices_survive [of "''ready''" "''off''" "newLogger 0" 12]
  by (simp add: newLogger_def setLevelVar_def level_defs)

end
