(* ===== verification/Config.thy ===== *)
theory Config
  imports Go_Strings Complex_Main
begin

section \<open>Configuration (internal/config/config.go)\<close>

text \<open>
  The configuration records, the time of day of the daily refresh, the defaults and the
  validation. Durations and instants are nanoseconds; an instant counts from the Unix epoch
  in UTC, where every day has 24 hours. The YAML decoder is not part of the repository and is
  a parameter of \<open>Load\<close>, as is the reading of the file. \<open>Load\<close> returns an error together with
  the configuration; its callers use the configuration only without an error.
\<close>

abbreviation Second :: int where "Second \<equiv> 1000000000"
abbreviation Minute :: int where "Minute \<equiv> 60 * 1000000000"
abbreviation Hour :: int where "Hour \<equiv> 3600 * 1000000000"
abbreviation Millisecond :: int where "Millisecond \<equiv> 1000000"

subsection \<open>Time of day\<close>

record DailyAt =
  da_Hour :: int
  da_Minute :: int

definition time_Date :: "int \<Rightarrow> int \<Rightarrow> int \<Rightarrow> int" where
  "time_Date day h m = day * (24 * Hour) + h * Hour + m * Minute"

definition daily_Next :: "DailyAt \<Rightarrow> int \<Rightarrow> int" where
  "daily_Next d from =
     (let cand = time_Date (from div (24 * Hour)) (da_Hour d) (da_Minute d)
      in if \<not> from < cand then cand + 24 * Hour else cand)"

datatype daily_error = WantHHMM string | BadHour string | BadMinute string

definition ParseDailyAt :: "string \<Rightarrow> daily_error + DailyAt" where
  "ParseDailyAt s0 =
     (let s = TrimSpace (TrimSuffix (TrimSpace s0) ''UTC'') in
      case cut_byte (CHR '':'') s of
        None \<Rightarrow> Inl (WantHHMM s)
      | Some (p0, p1) \<Rightarrow>
          (case Atoi (TrimSpace p0) of
             None \<Rightarrow> Inl (BadHour p0)
           | Some h \<Rightarrow>
               if h < 0 \<or> h > 23 then Inl (BadHour p0)
               else (case Atoi (TrimSpace p1) of
                       None \<Rightarrow> Inl (BadMinute p1)
                     | Some m \<Rightarrow>
                         if m < 0 \<or> m > 59 then Inl (BadMinute p1)
                         else Inr \<lparr>da_Hour = h, da_Minute = m\<rparr>)))"

subsection \<open>The records\<close>

text \<open>A \<open>float64\<close>: not a number, an infinity (positive or not), or a finite value.\<close>

datatype f64 = F_NaN | F_Inf bool | F_Fin rat

definition f64_le0 :: "f64 \<Rightarrow> bool" where
  "f64_le0 x = (case x of F_NaN \<Rightarrow> False | F_Inf pos \<Rightarrow> \<not> pos | F_Fin q \<Rightarrow> q \<le> 0)"

record StatsConfig =
  st_Enabled :: bool
  st_DumpPath :: string
  st_DumpInterval :: int
  st_HTTPBind :: string

record ServerConfig =
  sv_Bind :: string
  sv_ReadTimeout :: int
  sv_WriteTimeout :: int
  sv_MaxConcurrent :: int
  sv_MaxQueryBytes :: int
  sv_PidFile :: string

record SourceConfig =
  so_Name :: string
  so_Enabled :: bool
  so_Format :: string
  so_URL :: string
  so_DBName :: string
  so_Classes :: "string list"

record DbaseConfig =
  db_CacheDir :: string
  db_PollInterval :: int
  db_DailyAt :: string
  db_RetryOnFailure :: int
  db_Sources :: "SourceConfig list"

record ACLConfig =
  acl_Default :: string
  acl_Allow :: "string list"
  acl_Deny :: "string list"

record RateLimitConfig =
  rc_Enabled :: bool
  rc_RPS :: f64
  rc_Burst :: int
  rc_V4Prefix :: int
  rc_V6Prefix :: int
  rc_IdleTTL :: int

record LogConfig =
  lc_Level :: string

record Config =
  c_Server :: ServerConfig
  c_Dbase :: DbaseConfig
  c_ACL :: ACLConfig
  c_RateLimit :: RateLimitConfig
  c_Stats :: StatsConfig
  c_Log :: LogConfig

subsection \<open>Defaults\<close>

text \<open>\<open>if x == zero { x = dflt }\<close> for strings and for numbers.\<close>

definition or_str :: "string \<Rightarrow> string \<Rightarrow> string" where
  "or_str x dflt = (if x = [] then dflt else x)"

definition or_int :: "int \<Rightarrow> int \<Rightarrow> int" where
  "or_int x dflt = (if x = 0 then dflt else x)"

definition applyDefaults :: "Config \<Rightarrow> Config" where
  "applyDefaults c = c\<lparr>
     c_Server := (c_Server c)\<lparr>
       sv_Bind := or_str (sv_Bind (c_Server c)) ''0.0.0.0:43'',
       sv_ReadTimeout := or_int (sv_ReadTimeout (c_Server c)) (5 * Second),
       sv_WriteTimeout := or_int (sv_WriteTimeout (c_Server c)) (30 * Second),
       sv_MaxConcurrent := or_int (sv_MaxConcurrent (c_Server c)) 1024,
       sv_MaxQueryBytes := or_int (sv_MaxQueryBytes (c_Server c)) 512,
       sv_PidFile := or_str (sv_PidFile (c_Server c)) ''/run/whoisd.pid''\<rparr>,
     c_Dbase := (c_Dbase c)\<lparr>
       db_CacheDir := or_str (db_CacheDir (c_Dbase c)) ''./var/dbase'',
       db_PollInterval := or_int (db_PollInterval (c_Dbase c)) Hour,
       db_DailyAt := or_str (db_DailyAt (c_Dbase c)) ''02:00'',
       db_RetryOnFailure := or_int (db_RetryOnFailure (c_Dbase c)) (5 * Minute)\<rparr>,
     c_ACL := (c_ACL c)\<lparr>acl_Default := or_str (acl_Default (c_ACL c)) ''allow''\<rparr>,
     c_RateLimit := (c_RateLimit c)\<lparr>
       rc_IdleTTL := or_int (rc_IdleTTL (c_RateLimit c)) (10 * Minute),
       rc_V4Prefix := or_int (rc_V4Prefix (c_RateLimit c)) 32,
       rc_V6Prefix := or_int (rc_V6Prefix (c_RateLimit c)) 128\<rparr>,
     c_Log := (c_Log c)\<lparr>lc_Level := or_str (lc_Level (c_Log c)) ''info''\<rparr>,
     c_Stats := (c_Stats c)\<lparr>st_DumpInterval := or_int (st_DumpInterval (c_Stats c)) Second\<rparr>\<rparr>"

subsection \<open>Validation\<close>

datatype 'e config_error =
  ReadConfig 'e | ParseConfig 'e
| AclDefault string | DailyAtError daily_error | PollTooSmall int
| NameRequired nat | DuplicateName string | SplitWithoutClasses string | BadFormat string string
| URLRequired string | NoSourceEnabled | DumpTooSmall int
| RPSNotPositive | BurstNotPositive | V4PrefixRange | V6PrefixRange

text \<open>The loop over the sources; the result is the number of enabled ones.\<close>

fun validate_sources :: "nat \<Rightarrow> string set \<Rightarrow> nat \<Rightarrow> SourceConfig list \<Rightarrow> 'e config_error + nat" where
  "validate_sources i seen enabled [] = Inr enabled"
| "validate_sources i seen enabled (src # srcs) =
     (if so_Name src = [] then Inl (NameRequired i)
      else if so_Name src \<in> seen then Inl (DuplicateName (so_Name src))
      else let seen' = insert (so_Name src) seen in
        if \<not> so_Enabled src then validate_sources (i + 1) seen' enabled srcs
        else if so_Format src = ''split'' \<and> so_Classes src = [] then Inl (SplitWithoutClasses (so_Name src))
        else if so_Format src \<noteq> ''split'' \<and> so_Format src \<noteq> ''single'' then Inl (BadFormat (so_Name src) (so_Format src))
        else if so_URL src = [] then Inl (URLRequired (so_Name src))
        else validate_sources (i + 1) seen' (enabled + 1) srcs)"

definition validate_rate :: "RateLimitConfig \<Rightarrow> 'e config_error option" where
  "validate_rate r =
     (if rc_Enabled r then
        if f64_le0 (rc_RPS r) then Some RPSNotPositive
        else if rc_Burst r \<le> 0 then Some BurstNotPositive
        else if rc_V4Prefix r < 0 \<or> rc_V4Prefix r > 32 then Some V4PrefixRange
        else if rc_V6Prefix r < 0 \<or> rc_V6Prefix r > 128 then Some V6PrefixRange
        else None
      else None)"

definition validate_rest :: "Config \<Rightarrow> 'e config_error option" where
  "validate_rest c =
     (case validate_sources 0 {} 0 (db_Sources (c_Dbase c)) of
        Inl e \<Rightarrow> Some e
      | Inr enabled \<Rightarrow>
          if enabled = 0 then Some NoSourceEnabled
          else if st_Enabled (c_Stats c) \<and> st_DumpInterval (c_Stats c) < 50 * Millisecond
            then Some (DumpTooSmall (st_DumpInterval (c_Stats c)))
          else validate_rate (c_RateLimit c))"

definition validate :: "Config \<Rightarrow> 'e config_error option" where
  "validate c =
     (if acl_Default (c_ACL c) \<noteq> ''allow'' \<and> acl_Default (c_ACL c) \<noteq> ''deny'' then Some (AclDefault (acl_Default (c_ACL c)))
      else case (if db_DailyAt (c_Dbase c) \<noteq> [] then ParseDailyAt (db_DailyAt (c_Dbase c)) else Inr \<lparr>da_Hour = 0, da_Minute = 0\<rparr>) of
             Inl e \<Rightarrow> Some (DailyAtError e)
           | Inr _ \<Rightarrow>
               if db_PollInterval (c_Dbase c) < 30 * Second then Some (PollTooSmall (db_PollInterval (c_Dbase c)))
               else validate_rest c)"

definition Load :: "(string \<Rightarrow> 'e + string) \<Rightarrow> (string \<Rightarrow> 'e + Config) \<Rightarrow> string \<Rightarrow> 'e config_error + Config" where
  "Load readFile unmarshal path =
     (case readFile path of
        Inl e \<Rightarrow> Inl (ReadConfig e)
      | Inr data \<Rightarrow>
          (case unmarshal data of
             Inl e \<Rightarrow> Inl (ParseConfig e)
           | Inr c0 \<Rightarrow>
               (let c = applyDefaults c0
                in case validate c of Some e \<Rightarrow> Inl e | None \<Rightarrow> Inr c)))"

end
