(* ===== verification/Config_Props.thy ===== *)
theory Config_Props
  imports Config
begin

section \<open>Properties of the configuration\<close>

text \<open>
  The clock of the daily refresh, its parser, the defaults, and an exact description of what
  the validation accepts.
\<close>

subsection \<open>The daily refresh\<close>

definition tod :: "DailyAt \<Rightarrow> int" where
  "tod d = da_Hour d * Hour + da_Minute d * Minute"

definition clock_ok :: "DailyAt \<Rightarrow> bool" where
  "clock_ok d \<longleftrightarrow> 0 \<le> da_Hour d \<and> da_Hour d \<le> 23 \<and> 0 \<le> da_Minute d \<and> da_Minute d \<le> 59"

lemma tod_range: "clock_ok d \<Longrightarrow> 0 \<le> tod d \<and> tod d < 24 * Hour"
  by (auto simp: clock_ok_def tod_def)

lemma next_congruent:
  assumes "0 \<le> (a :: int)" "a < n" "t mod n = a" "from < t"
  shows "(if \<not> from < from div n * n + a then from div n * n + a + n else from div n * n + a) \<le> t"
proof -
  have n: "0 < n" using assms by linarith
  have t: "t = t div n * n + a" using assms(3) by (metis div_mult_mod_eq)
  have f: "from = from div n * n + from mod n" "0 \<le> from mod n" "from mod n < n"
    using n by simp_all
  have le: "from div n \<le> t div n" using assms(4) n by (simp add: zdiv_mono1)
  show ?thesis
  proof (cases "from < from div n * n + a")
    case True
    have "from div n * n \<le> t div n * n" using le n by (simp add: mult_right_mono)
    with t have "from div n * n + a \<le> t" by linarith
    with True show ?thesis by simp
  next
    case False
    then have "t div n \<noteq> from div n" using t assms(4) by auto
    with le have "from div n + 1 \<le> t div n" by linarith
    then have "(from div n + 1) * n \<le> t div n * n" using n by (simp add: mult_right_mono)
    then have "from div n * n + n \<le> t div n * n" by (simp add: algebra_simps)
    with t have "from div n * n + a + n \<le> t" by linarith
    with False show ?thesis by simp
  qed
qed

lemma next_within:
  assumes "0 \<le> (a :: int)" "a < n"
  shows "from < (if \<not> from < from div n * n + a then from div n * n + a + n else from div n * n + a)"
    and "(if \<not> from < from div n * n + a then from div n * n + a + n else from div n * n + a) \<le> from + n"
proof -
  have n: "0 < n" using assms by linarith
  have f: "from = from div n * n + from mod n" "0 \<le> from mod n" "from mod n < n" using n by simp_all
  then have "from < from div n * n + a + n" "from div n * n \<le> from" using assms by linarith+
  then show "from < (if \<not> from < from div n * n + a then from div n * n + a + n else from div n * n + a)"
    and "(if \<not> from < from div n * n + a then from div n * n + a + n else from div n * n + a) \<le> from + n"
    using assms(2) by (simp_all split: if_split)
qed

lemma daily_Next_eq:
  "daily_Next d from =
     (if \<not> from < from div (24 * Hour) * (24 * Hour) + tod d then from div (24 * Hour) * (24 * Hour) + tod d + 24 * Hour
      else from div (24 * Hour) * (24 * Hour) + tod d)"
  by (simp add: daily_Next_def time_Date_def tod_def Let_def)

lemma daily_Next_spec:
  assumes "clock_ok d"
  shows "from < daily_Next d from" "daily_Next d from \<le> from + 24 * Hour" "daily_Next d from mod (24 * Hour) = tod d"
    "\<And>t. from < t \<Longrightarrow> t mod (24 * Hour) = tod d \<Longrightarrow> daily_Next d from \<le> t"
proof -
  note r = tod_range [OF assms]
  show "from < daily_Next d from" "daily_Next d from \<le> from + 24 * Hour"
    unfolding daily_Next_eq using next_within [of "tod d" "24 * Hour" "from"] r by blast+
  show "daily_Next d from mod (24 * Hour) = tod d"
    using r unfolding daily_Next_eq by simp
  show "daily_Next d from \<le> t" if "from < t" "t mod (24 * Hour) = tod d" for t
    unfolding daily_Next_eq using next_congruent [OF _ _ that(2,1)] r by blast
qed

lemma ParseDailyAt_ok: "ParseDailyAt s = Inr d \<Longrightarrow> clock_ok d"
  by (auto simp: ParseDailyAt_def clock_ok_def Let_def split: option.splits if_splits)

text \<open>
  The next daily refresh. For every time of day that the parser accepts, \<open>Next\<close> is the
  earliest instant strictly after the given one with that time of day, and it lies at most 24
  hours ahead.
\<close>

theorem next_is_earliest:
  assumes "ParseDailyAt s = Inr d"
  shows "from < daily_Next d from \<and> daily_Next d from \<le> from + 24 * Hour \<and>
    daily_Next d from mod (24 * Hour) = da_Hour d * Hour + da_Minute d * Minute \<and>
    (\<forall>t. from < t \<and> t mod (24 * Hour) = da_Hour d * Hour + da_Minute d * Minute \<longrightarrow> daily_Next d from \<le> t)"
  using daily_Next_spec [OF ParseDailyAt_ok [OF assms]] by (simp add: tod_def)

lemma parse_two_oclock: "ParseDailyAt ''02:00'' = Inr \<lparr>da_Hour = 2, da_Minute = 0\<rparr>"
  by code_simp

theorem next_is_earliest_witness: "daily_Next \<lparr>da_Hour = 2, da_Minute = 0\<rparr> 0 \<le> 2 * Hour"
  using next_is_earliest [OF parse_two_oclock, of 0] by simp

text \<open>
  C30: the parser of the time of day reads back every clock time from 00:00 to 23:59 written
  with two digits each, with any ASCII blanks around it and with or without the suffix UTC;
  and whatever it accepts is in this range.
\<close>

theorem daily_at_roundtrip:
  assumes "list_all ascii_space a" and "list_all ascii_space b" and "list_all ascii_space z" and "h < 24" and "m < 60"
  shows "ParseDailyAt (a @ two_digits h @ '':'' @ two_digits m @ (if utc then b @ ''UTC'' else []) @ z) =
      Inr \<lparr>da_Hour = int h, da_Minute = int m\<rparr> \<and>
    (\<forall>s d. ParseDailyAt s = Inr d \<longrightarrow> 0 \<le> da_Hour d \<and> da_Hour d \<le> 23 \<and> 0 \<le> da_Minute d \<and> da_Minute d \<le> 59)"
proof -
  let ?t = "two_digits h @ '':'' @ two_digits m"
  have dh: "list_all is_digit (two_digits h)" "digits_val (two_digits h) = h"
    and dm: "list_all is_digit (two_digits m)" "digits_val (two_digits m) = m"
    using two_digits_facts [of h] two_digits_facts [of m] assms(4,5) by simp_all
  have len: "two_digits n \<noteq> []" for n by (simp add: two_digits_def)
  have ends: "is_digit (hd (two_digits h))" "is_digit (last (two_digits m))"
    using dh(1) dm(1) by (simp_all add: two_digits_def)
  have p: "byte (hd ?t) < 128" "\<not> ascii_space (hd ?t)" "byte (last ?t) < 128" "\<not> ascii_space (last ?t)" "?t \<noteq> []"
    using digit_plain [OF ends(1)] digit_plain [OF ends(2)] len by (simp_all add: two_digits_def)
  have C: "byte CHR ''C'' < 128" "\<not> ascii_space CHR ''C''" by (simp_all add: ascii_space_def)
  have core: "TrimSpace (TrimSuffix (TrimSpace (a @ ?t @ (if utc then b @ ''UTC'' else []) @ z)) ''UTC'') = ?t"
  proof (cases utc)
    case True
    have "TrimSpace (a @ (?t @ b @ ''UTC'') @ z) = ?t @ b @ ''UTC''"
      using p C len by (intro TrimSpace_core assms(1,3)) (simp_all add: hd_append)
    moreover have "TrimSuffix (?t @ b @ ''UTC'') ''UTC'' = ?t @ b"
      by (simp add: TrimSuffix_def has_suffix_def)
    moreover have "TrimSpace ([] @ ?t @ b) = ?t" using p by (intro TrimSpace_core assms(2)) simp_all
    ultimately show ?thesis using True by simp
  next
    case False
    have "TrimSpace (a @ ?t @ z) = ?t" using p by (intro TrimSpace_core assms(1,3)) simp_all
    moreover have "TrimSuffix ?t ''UTC'' = ?t"
    proof -
      have "last (two_digits m) \<noteq> CHR ''C''" using ends(2) by (auto simp: is_digit_def)
      then have "\<not> has_suffix ?t ''UTC''" by (auto simp: has_suffix_def two_digits_def)
      then show ?thesis by (simp add: TrimSuffix_def)
    qed
    moreover have "TrimSpace ([] @ ?t @ []) = ?t" using p by (intro TrimSpace_core) simp_all
    ultimately show ?thesis using False by simp
  qed
  have "CHR '':'' \<notin> set (two_digits h)"
    using dh(1) digit_ne unfolding list_all_iff by blast
  then have cut: "cut_byte CHR '':'' ?t = Some (two_digits h, two_digits m)" by simp
  have trim: "TrimSpace (two_digits n) = two_digits n" if "list_all is_digit (two_digits n)" for n
    using that digit_plain by (intro TrimSpace_plain) (auto simp: list_all_iff)
  have "Atoi (TrimSpace (two_digits h)) = Some (int h)" "Atoi (TrimSpace (two_digits m)) = Some (int m)"
    using Atoi_digits [OF dh(1)] Atoi_digits [OF dm(1)] dh dm assms(4,5) trim len by simp_all
  with core cut assms(4,5)
  have "ParseDailyAt (a @ ?t @ (if utc then b @ ''UTC'' else []) @ z) = Inr \<lparr>da_Hour = int h, da_Minute = int m\<rparr>"
    unfolding ParseDailyAt_def Let_def by simp
  then show ?thesis using ParseDailyAt_ok by (auto simp: clock_ok_def)
qed

theorem daily_at_roundtrip_witness: "ParseDailyAt '' 23:59 UTC '' = Inr \<lparr>da_Hour = 23, da_Minute = 59\<rparr>"
proof -
  have "list_all ascii_space '' ''" by (simp add: ascii_space_def)
  moreover have "two_digits 23 = ''23''" "two_digits 59 = ''59''" by code_simp+
  ultimately show ?thesis using daily_at_roundtrip [of "'' ''" "'' ''" "'' ''" 23 59 True] by simp
qed

subsection \<open>Validation\<close>

definition source_ok :: "SourceConfig \<Rightarrow> bool" where
  "source_ok s \<longleftrightarrow> so_Name s \<noteq> [] \<and>
     (so_Enabled s \<longrightarrow> (so_Format s = ''single'' \<or> so_Format s = ''split'' \<and> so_Classes s \<noteq> []) \<and> so_URL s \<noteq> [])"

lemma validate_sources_ok:
  "validate_sources i seen n srcs = (Inr k :: 'e config_error + nat) \<longleftrightarrow>
     list_all source_ok srcs \<and> distinct (map so_Name srcs) \<and> set (map so_Name srcs) \<inter> seen = {} \<and>
     k = n + length (filter so_Enabled srcs)"
proof (induction srcs arbitrary: i seen n)
  case (Cons s srcs)
  show ?case
  proof (cases "so_Name s = [] \<or> so_Name s \<in> seen \<or> \<not> source_ok s")
    case True
    then show ?thesis by (auto simp: source_ok_def Let_def)
  next
    case False
    then have "validate_sources i seen n (s # srcs) =
        (validate_sources (i + 1) (insert (so_Name s) seen) (if so_Enabled s then n + 1 else n) srcs :: 'e config_error + nat)"
      by (auto simp: source_ok_def Let_def)
    with False Cons.IH show ?thesis by auto
  qed
qed auto

definition rate_ok :: "RateLimitConfig \<Rightarrow> bool" where
  "rate_ok r \<longleftrightarrow> (rc_Enabled r \<longrightarrow> \<not> f64_le0 (rc_RPS r) \<and> 0 < rc_Burst r \<and> 0 \<le> rc_V4Prefix r \<and> rc_V4Prefix r \<le> 32 \<and>
     0 \<le> rc_V6Prefix r \<and> rc_V6Prefix r \<le> 128)"

lemma validate_rate_ok: "validate_rate r = None \<longleftrightarrow> rate_ok r"
  by (auto simp: validate_rate_def rate_ok_def)

text \<open>What the validation accepts, without the order of its tests.\<close>

definition config_ok :: "Config \<Rightarrow> bool" where
  "config_ok c \<longleftrightarrow>
     acl_Default (c_ACL c) \<in> {''allow'', ''deny''} \<and>
     (db_DailyAt (c_Dbase c) = [] \<or> (\<exists>d. ParseDailyAt (db_DailyAt (c_Dbase c)) = Inr d)) \<and>
     30 * Second \<le> db_PollInterval (c_Dbase c) \<and>
     list_all source_ok (db_Sources (c_Dbase c)) \<and> distinct (map so_Name (db_Sources (c_Dbase c))) \<and>
     (\<exists>s \<in> set (db_Sources (c_Dbase c)). so_Enabled s) \<and>
     (st_Enabled (c_Stats c) \<longrightarrow> 50 * Millisecond \<le> st_DumpInterval (c_Stats c)) \<and>
     rate_ok (c_RateLimit c)"

lemma validate_rest_ok:
  "validate_rest c = (None :: 'e config_error option) \<longleftrightarrow>
     list_all source_ok (db_Sources (c_Dbase c)) \<and> distinct (map so_Name (db_Sources (c_Dbase c))) \<and>
     (\<exists>s \<in> set (db_Sources (c_Dbase c)). so_Enabled s) \<and>
     (st_Enabled (c_Stats c) \<longrightarrow> 50 * Millisecond \<le> st_DumpInterval (c_Stats c)) \<and> rate_ok (c_RateLimit c)"
proof (cases "validate_sources 0 {} 0 (db_Sources (c_Dbase c)) :: 'e config_error + nat")
  case (Inl e)
  then have "\<not> (list_all source_ok (db_Sources (c_Dbase c)) \<and> distinct (map so_Name (db_Sources (c_Dbase c))))"
    using validate_sources_ok [of 0 "{}" 0 "db_Sources (c_Dbase c)", where 'e = 'e] by fastforce
  with Inl show ?thesis by (auto simp: validate_rest_def)
next
  case (Inr k)
  then have ok: "list_all source_ok (db_Sources (c_Dbase c))" "distinct (map so_Name (db_Sources (c_Dbase c)))"
    and k: "k = length (filter so_Enabled (db_Sources (c_Dbase c)))"
    using validate_sources_ok [of 0 "{}" 0 "db_Sources (c_Dbase c)" k, where 'e = 'e] by simp_all
  have "k = 0 \<longleftrightarrow> \<not> (\<exists>s \<in> set (db_Sources (c_Dbase c)). so_Enabled s)"
    unfolding k by (simp add: filter_empty_conv)
  with ok Inr show ?thesis by (auto simp: validate_rest_def validate_rate_ok)
qed

lemma validate_config_ok: "validate c = (None :: 'e config_error option) \<longleftrightarrow> config_ok c"
  unfolding validate_def config_ok_def
  by (cases "ParseDailyAt (db_DailyAt (c_Dbase c))") (auto simp: validate_rest_ok)

text \<open>
  C28: the validation accepts exactly the configurations with a known ACL default, a readable
  time of day, a poll interval of at least 30 seconds, sources with different non-empty names
  of which at least one is enabled, enabled sources with a URL and a format whose needs are
  met, a dump interval of at least 50 ms when statistics are enabled, and a rate limit, when
  enabled, that is positive with prefix lengths in range.
\<close>

theorem validate_exact:
  "validate c = (None :: 'e config_error option) \<longleftrightarrow>
     acl_Default (c_ACL c) \<in> {''allow'', ''deny''} \<and>
     (db_DailyAt (c_Dbase c) = [] \<or> (\<exists>d. ParseDailyAt (db_DailyAt (c_Dbase c)) = Inr d)) \<and>
     30 * Second \<le> db_PollInterval (c_Dbase c) \<and>
     list_all source_ok (db_Sources (c_Dbase c)) \<and> distinct (map so_Name (db_Sources (c_Dbase c))) \<and>
     (\<exists>s \<in> set (db_Sources (c_Dbase c)). so_Enabled s) \<and>
     (\<not> st_Enabled (c_Stats c) \<or> 50 * Millisecond \<le> st_DumpInterval (c_Stats c)) \<and> rate_ok (c_RateLimit c)"
  unfolding validate_config_ok config_ok_def by blast

subsection \<open>Defaults\<close>

lemmas defaults_defs = applyDefaults_def or_str_def or_int_def

lemma or_idem [simp]: "or_str (or_str x d) d = or_str x d" "or_int (or_int i k) k = or_int i k"
  by (simp_all add: or_str_def or_int_def)

text \<open>
  The defaults. Applying them twice is applying them once; they keep every setting that is
  not the zero value, the lists and the switches; and afterwards no setting with a default is
  the zero value. In particular an empty pid file or time of day, which the documentation
  describes as disabling the feature, never reaches the program, and a rate-limit prefix
  length of 0 becomes that of a single host.
\<close>

theorem defaults_fill_zero_values:
  "applyDefaults (applyDefaults c) = applyDefaults c \<and>
   sv_PidFile (c_Server (applyDefaults c)) \<noteq> [] \<and> db_DailyAt (c_Dbase (applyDefaults c)) \<noteq> [] \<and>
   sv_Bind (c_Server (applyDefaults c)) \<noteq> [] \<and> sv_MaxConcurrent (c_Server (applyDefaults c)) \<noteq> 0 \<and>
   sv_MaxQueryBytes (c_Server (applyDefaults c)) \<noteq> 0 \<and> sv_ReadTimeout (c_Server (applyDefaults c)) \<noteq> 0 \<and>
   rc_V4Prefix (c_RateLimit (applyDefaults c)) = (if rc_V4Prefix (c_RateLimit c) = 0 then 32 else rc_V4Prefix (c_RateLimit c)) \<and>
   rc_V6Prefix (c_RateLimit (applyDefaults c)) = (if rc_V6Prefix (c_RateLimit c) = 0 then 128 else rc_V6Prefix (c_RateLimit c)) \<and>
   db_Sources (c_Dbase (applyDefaults c)) = db_Sources (c_Dbase c) \<and>
   acl_Allow (c_ACL (applyDefaults c)) = acl_Allow (c_ACL c) \<and> acl_Deny (c_ACL (applyDefaults c)) = acl_Deny (c_ACL c) \<and>
   st_DumpPath (c_Stats (applyDefaults c)) = st_DumpPath (c_Stats c) \<and> st_HTTPBind (c_Stats (applyDefaults c)) = st_HTTPBind (c_Stats c)"
proof -
  have "applyDefaults (applyDefaults c) = applyDefaults c"
    unfolding applyDefaults_def by (simp add: or_idem)
  then show ?thesis by (simp add: defaults_defs)
qed

end
