(* ===== verification/Pidfile.thy ===== *)
theory Pidfile
  imports File_System
begin

section \<open>The pid file (reload.go)\<close>

text \<open>
  The daemon writes its process id to a file, and \<open>whoisd --reload\<close> reads it there and signals
  the process. The failures of the operating system and the delivery of a signal are the
  fields of \<open>pid_env\<close>. Writing a file truncates it first, so a failing write leaves a part.
\<close>

record 'e pid_env =
  pd_mkdir :: "string \<Rightarrow> 'e option"
  pd_open :: "string \<Rightarrow> 'e option"
  pd_write :: "string \<Rightarrow> (nat \<times> 'e) option"
  pd_read :: "string \<Rightarrow> 'e option"
  pd_remove :: "string \<Rightarrow> 'e option"
  pd_find :: "int \<Rightarrow> 'e option"
  pd_signal :: "int \<Rightarrow> 'e option"
  pd_not_found :: 'e
  pd_now :: int

datatype 'e pid_error =
  PidDir string 'e | PidWrite string 'e | PidFileEmpty | PidRead string 'e | MalformedPid string
| NoProcess int 'e | SignalFailed int 'e

definition os_ReadFile :: "'e pid_env \<Rightarrow> fs \<Rightarrow> string \<Rightarrow> 'e + string" where
  "os_ReadFile env fs path =
     (case pd_read env path of
        Some e \<Rightarrow> Inl e
      | None \<Rightarrow> (case Mapping.lookup fs path of None \<Rightarrow> Inl (pd_not_found env) | Some f \<Rightarrow> Inr (f_data f)))"

definition writePidFile :: "'e pid_env \<Rightarrow> int \<Rightarrow> string \<Rightarrow> fs \<Rightarrow> fs \<times> 'e pid_error option" where
  "writePidFile env pid path fs =
     (if path = [] then (fs, None)
      else let dir = path_Dir path in
        case pd_mkdir env dir of
          Some e \<Rightarrow> (fs, Some (PidDir dir e))
        | None \<Rightarrow>
            (case pd_open env path of
               Some e \<Rightarrow> (fs, Some (PidWrite path e))
             | None \<Rightarrow>
                 (let data = Itoa pid @ [CHR 0x0A] in
                  case pd_write env path of
                    Some (n, e) \<Rightarrow> (Mapping.update path \<lparr>f_data = take n data, f_mtime = pd_now env\<rparr> fs, Some (PidWrite path e))
                  | None \<Rightarrow> (Mapping.update path \<lparr>f_data = data, f_mtime = pd_now env\<rparr> fs, None))))"

definition removePidFile :: "'e pid_env \<Rightarrow> int \<Rightarrow> string \<Rightarrow> fs \<Rightarrow> fs" where
  "removePidFile env self path fs =
     (if path = [] then fs
      else case os_ReadFile env fs path of
             Inl _ \<Rightarrow> fs
           | Inr data \<Rightarrow>
               (case Atoi (TrimSpace data) of
                  None \<Rightarrow> fs
                | Some pid \<Rightarrow>
                    if pid \<noteq> self then fs
                    else if pd_remove env path = None then Mapping.delete path fs else fs))"

text \<open>\<open>sendReload\<close>: the process that was signalled, or the error.\<close>

definition sendReload :: "'e pid_env \<Rightarrow> string \<Rightarrow> fs \<Rightarrow> 'e pid_error + int" where
  "sendReload env pidFile fs =
     (if pidFile = [] then Inl PidFileEmpty
      else case os_ReadFile env fs pidFile of
             Inl e \<Rightarrow> Inl (PidRead pidFile e)
           | Inr data \<Rightarrow>
               (case Atoi (TrimSpace data) of
                  None \<Rightarrow> Inl (MalformedPid pidFile)
                | Some pid \<Rightarrow>
                    (case pd_find env pid of
                       Some e \<Rightarrow> Inl (NoProcess pid e)
                     | None \<Rightarrow> (case pd_signal env pid of Some e \<Rightarrow> Inl (SignalFailed pid e) | None \<Rightarrow> Inr pid))))"

subsection \<open>Facts\<close>

lemma Atoi_pid_line:
  assumes "0 \<le> pid" "pid < 2 ^ 63"
  shows "Atoi (TrimSpace (Itoa pid @ [CHR 0x0A])) = Some pid"
proof -
  let ?d = "nat_digits (nat pid)"
  have d: "list_all is_digit ?d" "?d \<noteq> []" by (simp_all add: nat_digits_digit)
  then have "is_digit (hd ?d)" "is_digit (last ?d)" by (simp_all add: list_all_iff)
  then have "TrimSpace ([] @ ?d @ [CHR 0x0A]) = ?d"
    using d(2) digit_plain by (intro TrimSpace_core) (simp_all add: ascii_space_def)
  moreover have "digits_val ?d < 2 ^ 63" using assms by simp
  ultimately show ?thesis using Atoi_digits [OF d] assms by (simp add: Itoa_def)
qed

lemma writePidFile_None:
  assumes "writePidFile env pid path fs = (fs', None)" "path \<noteq> []"
  shows "fs' = Mapping.update path \<lparr>f_data = Itoa pid @ [CHR 0x0A], f_mtime = pd_now env\<rparr> fs"
  using assms by (auto simp: writePidFile_def Let_def split: option.splits prod.splits)

text \<open>
  C33: the reload command finds the daemon. After a successful write of the pid file, and while
  nothing else writes it, the command signals exactly the process that wrote it; that process
  removes the file when it ends, and another process, which does not find its own id in it,
  leaves it alone.
\<close>

theorem reload_command_reaches_daemon:
  assumes "writePidFile env pid path fs = (fs', None)" and "path \<noteq> []" and "0 \<le> pid" and "pid < 2 ^ 63"
    and "pd_read env path = None" and "pd_remove env path = None"
  shows "sendReload env path fs' =
      (case pd_find env pid of
         Some e \<Rightarrow> Inl (NoProcess pid e)
       | None \<Rightarrow> (case pd_signal env pid of Some e \<Rightarrow> Inl (SignalFailed pid e) | None \<Rightarrow> Inr pid)) \<and>
    Mapping.lookup (removePidFile env pid path fs') path = None \<and>
    (other \<noteq> pid \<longrightarrow> removePidFile env other path fs' = fs')"
proof -
  have fs': "fs' = Mapping.update path \<lparr>f_data = Itoa pid @ [CHR 0x0A], f_mtime = pd_now env\<rparr> fs"
    by (rule writePidFile_None [OF assms(1,2)])
  then have "os_ReadFile env fs' path = Inr (Itoa pid @ [CHR 0x0A])"
    using assms(5) by (simp add: os_ReadFile_def)
  then show ?thesis
    using Atoi_pid_line [OF assms(3,4)] assms(2,6)
    by (simp add: sendReload_def removePidFile_def gomap_simps)
qed

definition quiet_env :: "string pid_env" where
  "quiet_env = \<lparr>pd_mkdir = \<lambda>_. None, pd_open = \<lambda>_. None, pd_write = \<lambda>_. None, pd_read = \<lambda>_. None, pd_remove = \<lambda>_. None,
     pd_find = \<lambda>_. None, pd_signal = \<lambda>_. None, pd_not_found = ''not found'', pd_now = 7\<rparr>"

theorem reload_command_reaches_daemon_witness:
  "sendReload quiet_env ''/run/whoisd.pid'' (fst (writePidFile quiet_env 4711 ''/run/whoisd.pid'' Mapping.empty)) = Inr 4711"
proof -
  obtain fs' where w: "writePidFile quiet_env 4711 ''/run/whoisd.pid'' Mapping.empty = (fs', None)"
    by (simp add: writePidFile_def quiet_env_def Let_def)
  from reload_command_reaches_daemon [OF w] w show ?thesis by (simp add: quiet_env_def)
qed

end
