(* ===== verification/Main_Prog.thy ===== *)
theory Main_Prog
  imports Downloader Server_Answer Listener Stats_Http Logging Config_Props Pidfile
begin

section \<open>The program (main.go)\<close>

text \<open>
  How the parts are put together: the access list and the limiter from the configuration, one
  round of download and reload, the time of the next round, and the start of the daemon.
  Exits with a status and panics are values. What happens concurrently after the start (the
  server, the refresh loop, the dumper) is described by the theories of these parts; the state
  they start from is \<open>program\<close>.
\<close>

subsection \<open>Building the parts\<close>

definition buildLimiter :: "RateLimitConfig \<Rightarrow> (f64, 'l) Limiter option" where
  "buildLimiter c =
     limiter_New \<lparr>rl_RPS = rc_RPS c, rl_Burst = rc_Burst c, rl_V4Prefix = rc_V4Prefix c, rl_V6Prefix = rc_V6Prefix c,
       rl_IdleTTL = rc_IdleTTL c\<rparr>"

definition statsOrNil :: "bool \<Rightarrow> Registry \<Rightarrow> Registry option" where
  "statsOrNil enabled r = (if \<not> enabled then None else Some r)"

datatype acl_build_error = AllowListError acl_error | DenyListError acl_error

text \<open>\<open>mustPrefix\<close> panics (\<open>None\<close>) on a string that is no prefix.\<close>

definition mustPrefix :: "string \<Rightarrow> prefix option" where
  "mustPrefix s = ParsePrefix s"

fun insert_loopback :: "string list \<Rightarrow> BERT \<Rightarrow> BERT option" where
  "insert_loopback [] t = Some t"
| "insert_loopback (p # ps) t =
     (case mustPrefix p of
        None \<Rightarrow> None
      | Some pr \<Rightarrow> insert_loopback ps (case bert_Insert t pr ActionAllow of Inl _ \<Rightarrow> t | Inr t' \<Rightarrow> t'))"

definition buildACL :: "ACLConfig \<Rightarrow> (acl_build_error + BERT) option" where
  "buildACL c =
     (let dflt = (if acl_Default c = ''deny'' then ActionDeny else ActionAllow) in
      case insert_loopback [''127.0.0.0/8'', ''::1/128''] (bert_New dflt) of
        None \<Rightarrow> None
      | Some t \<Rightarrow>
          (case LoadCIDRs t (acl_Allow c) ActionAllow of
             Inl e \<Rightarrow> Some (Inl (AllowListError e))
           | Inr t1 \<Rightarrow>
               (case LoadCIDRs t1 (acl_Deny c) ActionDeny of
                  Inl e \<Rightarrow> Some (Inl (DenyListError e))
                | Inr t2 \<Rightarrow> Some (Inr t2))))"

definition configSourcesToRIPE :: "SourceConfig list \<Rightarrow> Source list" where
  "configSourcesToRIPE cs =
     map (\<lambda>s. \<lparr>src_Name = so_Name s, src_Enabled = so_Enabled s, src_Format = so_Format s, src_URL = so_URL s,
               src_DBName = so_DBName s, src_Classes = so_Classes s\<rparr>) cs"

subsection \<open>Refreshing\<close>

text \<open>
  What one round needs from the world: the network and file system of the downloads, the order
  in which they finish, the reading of the cached files, the context of each loading
  goroutine, their interleaving, and the clock.
\<close>

record 'e round_env =
  rn_dl :: "'e dl_env"
  rn_fetch_order :: "nat list"
  rn_files :: "fs \<Rightarrow> 'e file_env"
  rn_ctx :: "nat \<Rightarrow> 'e ctx"
  rn_load_order :: "nat list"
  rn_now :: int

datatype 'e refresh_error = FetchFailed "'e fetchall_error" | ReloadFailed "'e load_error"

datatype refresh_report = DbaseReady nat nat "(string, int) gomap" | PollNoChanges nat

definition refresh ::
    "unicode \<Rightarrow> 'e round_env \<Rightarrow> Config \<Rightarrow> fs \<Rightarrow> Manager \<Rightarrow> fs \<times> Manager \<times> ('e refresh_error + bool \<times> refresh_report)" where
  "refresh u env cfg fs m =
     (case FetchAll (rn_dl env) (db_CacheDir (c_Dbase cfg)) (rn_fetch_order env)
             (configSourcesToRIPE (db_Sources (c_Dbase cfg))) fs of
        (fs', Inl e) \<Rightarrow> (fs', m, Inl (FetchFailed e))
      | (fs', Inr fetched) \<Rightarrow>
          (let changed = length (filter sf_Changed fetched);
               (m', rebuilt, err) = Reload u (rn_files env fs') (rn_ctx env) (rn_load_order env) (rn_now env) fetched (IsEmpty m) m
           in case err of
                Some e \<Rightarrow> (fs', m', Inl (ReloadFailed e))
              | None \<Rightarrow>
                  (fs', m', Inr (rebuilt, if rebuilt then DbaseReady changed (length fetched) (CountsBySource (Current m'))
                                          else PollNoChanges (length fetched)))))"

definition nextRefresh :: "int \<Rightarrow> Config \<Rightarrow> bool \<Rightarrow> int" where
  "nextRefresh now cfg failed =
     (if failed then now + db_RetryOnFailure (c_Dbase cfg)
      else let candidate = now + db_PollInterval (c_Dbase cfg) in
        if db_DailyAt (c_Dbase cfg) \<noteq> [] then
          (case ParseDailyAt (db_DailyAt (c_Dbase cfg)) of
             Inl _ \<Rightarrow> candidate
           | Inr d \<Rightarrow> (let anchor = daily_Next d now in if anchor < candidate then anchor else candidate))
        else candidate)"

text \<open>
  \<open>refreshLoop\<close>: before each round the loop computes when it is due, at \<open>now\<close>, and how long it
  waits from \<open>now'\<close>; a list of rounds is a run until the context is cancelled.
\<close>

record refresh_state =
  rs_fs :: fs
  rs_mgr :: Manager
  rs_failed :: bool
  rs_waits :: "int list"

definition refresh_round :: "unicode \<Rightarrow> Config \<Rightarrow> int \<times> int \<times> 'e round_env \<Rightarrow> refresh_state \<Rightarrow> refresh_state" where
  "refresh_round u cfg rnd s =
     (case rnd of (now, now', env) \<Rightarrow>
        let due = nextRefresh now cfg (rs_failed s);
            wait = (if due - now' < 0 then 0 else due - now');
            (fs', m', res) = refresh u env cfg (rs_fs s) (rs_mgr s)
        in \<lparr>rs_fs = fs', rs_mgr = m', rs_failed = isl res, rs_waits = rs_waits s @ [wait]\<rparr>)"

definition refreshLoop :: "unicode \<Rightarrow> Config \<Rightarrow> (int \<times> int \<times> 'e round_env) list \<Rightarrow> fs \<Rightarrow> Manager \<Rightarrow> refresh_state" where
  "refreshLoop u cfg rounds fs m = fold (refresh_round u cfg) rounds \<lparr>rs_fs = fs, rs_mgr = m, rs_failed = False, rs_waits = []\<rparr>"

subsection \<open>The start of the daemon\<close>

record 'l program =
  pr_logger :: Logger
  pr_server :: "(f64, 'l) server"
  pr_listener :: listener
  pr_dumper :: "Dumper option"
  pr_http :: "string option"

datatype 'l start = Exits nat | Panics | Runs "'l program"

text \<open>The fields that the snapshot function of the dumper adds to a snapshot of the registry.\<close>

definition snap_extra :: "(int \<Rightarrow> string) \<Rightarrow> Manager \<Rightarrow> Snapshot \<Rightarrow> Snapshot" where
  "snap_extra fmt m s =
     (let s1 = (if LastReload m \<noteq> 0 then s\<lparr>sn_RIPELoaded := fmt (LastReload m)\<rparr> else s)
      in s1\<lparr>sn_RIPEClasses := Counts (Current m), sn_SourceCounts := CountsBySource (Current m)\<rparr>)"

definition build_server :: "Config \<Rightarrow> Manager \<Rightarrow> BERT \<Rightarrow> (f64, 'l) Limiter option \<Rightarrow> Registry \<Rightarrow> (f64, 'l) server option" where
  "build_server cfg m tree lm registry =
     server_New \<lparr>cfg_Bind = sv_Bind (c_Server cfg), cfg_ReadTimeout = sv_ReadTimeout (c_Server cfg),
       cfg_WriteTimeout = sv_WriteTimeout (c_Server cfg), cfg_MaxConcurrent = sv_MaxConcurrent (c_Server cfg),
       cfg_MaxQueryBytes = sv_MaxQueryBytes (c_Server cfg)\<rparr> m tree lm (statsOrNil (st_Enabled (c_Stats cfg)) registry)"

definition build_dumper :: "Config \<Rightarrow> Dumper option \<times> string option" where
  "build_dumper cfg =
     (if st_Enabled (c_Stats cfg) then
        (Some \<lparr>d_Path = st_DumpPath (c_Stats cfg), d_Interval = st_DumpInterval (c_Stats cfg), d_last = None,
               d_curIntvl = 0, d_nudge = None\<rparr>,
         if st_HTTPBind (c_Stats cfg) \<noteq> [] then Some (st_HTTPBind (c_Stats cfg)) else None)
      else (None, None))"

text \<open>
  From the loaded configuration to the running server. The file system of the pid file and of
  the cache is the same; an exit skips the deferred removal of the pid file.
\<close>

definition daemon_start ::
    "unicode \<Rightarrow> 'e pid_env \<Rightarrow> int \<Rightarrow> 'e round_env \<Rightarrow> int \<Rightarrow> Config \<Rightarrow> fs \<Rightarrow> fs \<times> 'l start" where
  "daemon_start u penv pid env t0 cfg fs =
     (let logger = setLevelVar (lc_Level (c_Log cfg)) (newLogger LevelInfo);
          (fs1, pid_err) = writePidFile penv pid (sv_PidFile (c_Server cfg)) fs
      in case buildACL (c_ACL cfg) of
           None \<Rightarrow> (fs1, Panics)
         | Some (Inl e) \<Rightarrow> (fs1, Exits 2)
         | Some (Inr tree) \<Rightarrow>
             (let lm0 = (if rc_Enabled (c_RateLimit cfg) then map_option Some (buildLimiter (c_RateLimit cfg)) else Some None) in
              case lm0 of
                None \<Rightarrow> (fs1, Panics)
              | Some lm \<Rightarrow>
                  (let registry = NewRegistry t0;
                       (fs2, m, res) = refresh u env cfg fs1 NewManager
                   in case res of
                        Inl e \<Rightarrow> (fs2, Exits 1)
                      | Inr _ \<Rightarrow>
                          (let (dumper, http) = build_dumper cfg in
                           case build_server cfg m tree lm registry of
                             None \<Rightarrow> (fs2, Panics)
                           | Some srv \<Rightarrow>
                               (fs2, Runs \<lparr>pr_logger = logger, pr_server = srv, pr_listener = listener_New (sv_Bind (c_Server cfg)),
                                           pr_dumper = dumper, pr_http = http\<rparr>)))))"

text \<open>The end of \<open>main\<close>: the status of the process, and the deferred removal when it returns normally.\<close>

definition daemon_end :: "'e pid_env \<Rightarrow> int \<Rightarrow> Config \<Rightarrow> 'r option \<Rightarrow> fs \<Rightarrow> fs \<times> nat" where
  "daemon_end penv pid cfg run_err fs =
     (case run_err of
        Some e \<Rightarrow> (fs, 1)
      | None \<Rightarrow> (removePidFile penv pid (sv_PidFile (c_Server cfg)) fs, 0))"

record flags =
  fl_cfgPath :: string
  fl_help :: bool
  fl_version :: bool
  fl_stats :: bool
  fl_reload :: bool

datatype ('e, 'l) main_result = Usage | PrintVersion | ConfigError "'e config_error" | StatsResult nat | ReloadResult nat
  | Daemon "'l start"

text \<open>\<open>main\<close> after \<open>flag.Parse\<close>; \<open>run_stats\<close> is the statistics client.\<close>

definition main_prog ::
    "unicode \<Rightarrow> 'e pid_env \<Rightarrow> int \<Rightarrow> 'e round_env \<Rightarrow> int \<Rightarrow> (string \<Rightarrow> 'e config_error + Config) \<Rightarrow> (Config \<Rightarrow> 's option) \<Rightarrow>
     flags \<Rightarrow> fs \<Rightarrow> fs \<times> ('e, 'l) main_result" where
  "main_prog u penv pid env t0 load_cfg run_stats fl fs =
     (if fl_help fl then (fs, Usage)
      else if fl_version fl then (fs, PrintVersion)
      else case load_cfg (fl_cfgPath fl) of
             Inl e \<Rightarrow> (fs, ConfigError e)
           | Inr cfg \<Rightarrow>
               if fl_stats fl then (fs, StatsResult (case run_stats cfg of None \<Rightarrow> 0 | Some e \<Rightarrow> 1))
               else if fl_reload fl then
                 (fs, ReloadResult (case sendReload penv (sv_PidFile (c_Server cfg)) fs of Inl e \<Rightarrow> 1 | Inr pid \<Rightarrow> 0))
               else (let (fs', r) = daemon_start u penv pid env t0 cfg fs in (fs', Daemon r)))"

end
