(* ===== verification/Reload_Loop.thy ===== *)
theory Reload_Loop
  imports Main_Prog
begin

section \<open>Reloading the configuration (reload.go)\<close>

text \<open>
  \<open>applyReload\<close> on the parts of the running program that it reaches: the server's access list
  and limiter, the listener, the dumper and the logger. Loading the configuration and binding
  an address are decided by the environment. The messages that it logs are data.
\<close>

datatype 'e reload_log =
  ReloadParseFailed "'e config_error" | ReloadAclFailed acl_build_error | ReloadAclSwapped string nat nat
| ReloadLimiterSwapped f64 int | ReloadLimiterDisabled | ReloadLevel string | ReloadRebindFailed string "'e rebind_error"
| ReloadComplete

definition reload_acl :: "ACLConfig \<Rightarrow> 'l program \<Rightarrow> ('l program \<times> 'e reload_log) option" where
  "reload_acl c p =
     (case buildACL c of
        None \<Rightarrow> None
      | Some (Inl e) \<Rightarrow> Some (p, ReloadAclFailed e)
      | Some (Inr t) \<Rightarrow>
          Some (p\<lparr>pr_server := SetACL t (pr_server p)\<rparr>, ReloadAclSwapped (acl_Default c) (length (acl_Allow c)) (length (acl_Deny c))))"

definition reload_limiter :: "RateLimitConfig \<Rightarrow> 'l program \<Rightarrow> ('l program \<times> 'e reload_log) option" where
  "reload_limiter c p =
     (if rc_Enabled c then
        map_option (\<lambda>l. (p\<lparr>pr_server := SetLimiter (Some l) (pr_server p)\<rparr>, ReloadLimiterSwapped (rc_RPS c) (rc_Burst c))) (buildLimiter c)
      else Some (p\<lparr>pr_server := SetLimiter None (pr_server p)\<rparr>, ReloadLimiterDisabled))"

definition reload_bind :: "string \<Rightarrow> 'e option \<Rightarrow> 'l program \<Rightarrow> 'l program \<times> 'e reload_log list" where
  "reload_bind addr listen_err p =
     (if addr \<noteq> [] \<and> addr \<noteq> BindAddr (pr_listener p) then
        (let (ln', err) = Rebind addr listen_err (pr_listener p)
         in (p\<lparr>pr_listener := ln'\<rparr>, case err of None \<Rightarrow> [] | Some e \<Rightarrow> [ReloadRebindFailed addr e]))
      else (p, []))"

definition reload_level :: "string \<Rightarrow> 'l program \<Rightarrow> 'l program" where
  "reload_level level p = p\<lparr>pr_logger := setLevelVar level (pr_logger p)\<rparr>"

definition reload_interval :: "int \<Rightarrow> 'l program \<Rightarrow> 'l program" where
  "reload_interval i p = (if 0 < i then p\<lparr>pr_dumper := map_option (SetInterval i) (pr_dumper p)\<rparr> else p)"

text \<open>The whole of \<open>applyReload\<close>; a panic of one of its calls is \<open>None\<close>.\<close>

definition applyReload ::
    "('e config_error + Config) \<Rightarrow> 'e option \<Rightarrow> 'l program \<Rightarrow> ('l program \<times> 'e reload_log list) option" where
  "applyReload loaded listen_err p =
     (case loaded of
        Inl e \<Rightarrow> Some (p, [ReloadParseFailed e])
      | Inr cfg \<Rightarrow>
          (case reload_acl (c_ACL cfg) p of
             None \<Rightarrow> None
           | Some (p1, log1) \<Rightarrow>
               (case reload_limiter (c_RateLimit cfg) p1 of
                  None \<Rightarrow> None
                | Some (p2, log2) \<Rightarrow>
                    (let p3 = reload_level (lc_Level (c_Log cfg)) p2;
                         p4 = reload_interval (st_DumpInterval (c_Stats cfg)) p3;
                         (p5, log5) = reload_bind (sv_Bind (c_Server cfg)) listen_err p4
                     in Some (p5, [log1, log2, ReloadLevel (lc_Level (c_Log cfg))] @ log5 @ [ReloadComplete])))))"

text \<open>The loop: a signal applies the configuration as it is at that time; the context ends the loop.\<close>

datatype 'e hup_event = Hup "'e config_error + Config" "'e option" | HupDone

fun reloadLoop :: "'e hup_event list \<Rightarrow> 'l program \<Rightarrow> 'l program option" where
  "reloadLoop [] p = Some p"
| "reloadLoop (HupDone # evs) p = Some p"
| "reloadLoop (Hup loaded err # evs) p =
     (case applyReload loaded err p of None \<Rightarrow> None | Some (p', _) \<Rightarrow> reloadLoop evs p')"

end
