(* ===== verification/Program_Props.thy ===== *)
theory Program_Props
  imports Reload_Loop
begin

section \<open>Properties of the whole program\<close>

text \<open>
  What the configured access list means, when the next refresh is due, what a round of refresh
  does to the store, when the daemon starts, and what a reload changes.
\<close>

subsection \<open>The configured access list\<close>

lemma parse_cidr_ok:
  assumes "parse_cidr s = Some p"
  shows "prefix_wf p" "prefix_valid p"
proof -
  have "prefix_wf p \<and> prefix_valid p"
  proof (cases "ParsePrefix s")
    case (Some q)
    then show ?thesis using assms ParsePrefix_ok [of s q] by (simp add: parse_cidr_def prefix_ok_def)
  next
    case None
    then obtain a where a: "ParseAddr s = Some a" "p = PrefixFrom a (int (BitLen a))"
      using assms by (auto simp: parse_cidr_def split: option.splits)
    then have "a \<noteq> NoAddr" using ParseAddr_valid by blast
    then show ?thesis using a(2) by (cases a) (simp_all add: PrefixFrom_def prefix_valid_def)
  qed
  then show "prefix_wf p" "prefix_valid p" by simp_all
qed

lemma bert_Insert_valid: "prefix_valid p \<Longrightarrow> \<exists>b'. bert_Insert b p act = Inr b'"
  by (simp add: bert_Insert_def split: prod.split)

lemma LoadCIDRs_eq:
  "LoadCIDRs b cs act = Inr b' \<longleftrightarrow> (\<exists>ps. map parse_cidr cs = map Some ps \<and> Insert_all b (map (\<lambda>p. (p, act)) ps) = Inr b')"
proof (induction cs arbitrary: b)
  case (Cons c cs)
  show ?case
  proof (cases "parse_cidr c")
    case None
    then show ?thesis by auto
  next
    case (Some p)
    then obtain b1 where b1: "bert_Insert b p act = Inr b1" using bert_Insert_valid parse_cidr_ok(2) by blast
    have "(\<exists>ps. map parse_cidr (c # cs) = map Some ps \<and> Insert_all b (map (\<lambda>p. (p, act)) ps) = Inr b') \<longleftrightarrow>
      (\<exists>ps. map parse_cidr cs = map Some ps \<and> Insert_all b1 (map (\<lambda>p. (p, act)) ps) = Inr b')"
    proof
      assume "\<exists>ps. map parse_cidr (c # cs) = map Some ps \<and> Insert_all b (map (\<lambda>p. (p, act)) ps) = Inr b'"
      then obtain ps where "map parse_cidr (c # cs) = map Some ps" "Insert_all b (map (\<lambda>p. (p, act)) ps) = Inr b'" by blast
      then show "\<exists>ps. map parse_cidr cs = map Some ps \<and> Insert_all b1 (map (\<lambda>p. (p, act)) ps) = Inr b'"
        using Some b1 by (cases ps) auto
    next
      assume "\<exists>ps. map parse_cidr cs = map Some ps \<and> Insert_all b1 (map (\<lambda>p. (p, act)) ps) = Inr b'"
      then obtain ps where "map parse_cidr cs = map Some ps" "Insert_all b1 (map (\<lambda>p. (p, act)) ps) = Inr b'" by blast
      then show "\<exists>ps. map parse_cidr (c # cs) = map Some ps \<and> Insert_all b (map (\<lambda>p. (p, act)) ps) = Inr b'"
        using Some b1 by (intro exI [of _ "p # ps"]) simp
    qed
    with Cons.IH [of b1] Some b1 show ?thesis by simp
  qed
qed auto

lemma Insert_all_append:
  "Insert_all b (rs @ qs) = (case Insert_all b rs of Inl e \<Rightarrow> Inl e | Inr b' \<Rightarrow> Insert_all b' qs)"
  by (induction b rs rule: Insert_all.induct) (simp_all split: sum.split)

definition loopback_rules :: "(prefix \<times> action) list" where
  "loopback_rules = [(Prefix (V4 0x7F000000) 8, ActionAllow), (Prefix (V6 1 []) 128, ActionAllow)]"

lemma insert_loopback_eq:
  "insert_loopback [''127.0.0.0/8'', ''::1/128''] b = (case Insert_all b loopback_rules of Inl _ \<Rightarrow> None | Inr t \<Rightarrow> Some t)"
proof -
  have "ParsePrefix ''127.0.0.0/8'' = Some (Prefix (V4 0x7F000000) 8)" "ParsePrefix ''::1/128'' = Some (Prefix (V6 1 []) 128)"
    by code_simp+
  moreover have "prefix_valid (Prefix (V4 0x7F000000) 8)" "prefix_valid (Prefix (V6 1 []) 128)"
    by (simp_all add: prefix_valid_def)
  ultimately show ?thesis
    using bert_Insert_valid by (simp add: mustPrefix_def loopback_rules_def split: sum.split) (metis sum.distinct(1) sum.sel(2))
qed

definition config_rules :: "prefix list \<Rightarrow> prefix list \<Rightarrow> (prefix \<times> action) list" where
  "config_rules ps qs = loopback_rules @ map (\<lambda>p. (p, ActionAllow)) ps @ map (\<lambda>p. (p, ActionDeny)) qs"

definition default_action :: "ACLConfig \<Rightarrow> action" where
  "default_action c = (if acl_Default c = ''deny'' then ActionDeny else ActionAllow)"

lemma map_Some_inj: "map f xs = map Some ys \<Longrightarrow> map f xs = map Some zs \<Longrightarrow> ys = zs"
  by (metis inj_Some inj_map_eq_map)

lemma config_rules_ok:
  assumes "map parse_cidr cs = map Some ps" "map parse_cidr ds = map Some qs"
  shows "\<forall>r \<in> set (config_rules ps qs). rule_ok r"
proof -
  have "prefix_wf p \<and> prefix_valid p" if "map parse_cidr cs = map Some ps" "p \<in> set ps" for cs ps p
  proof -
    have "Some p \<in> set (map parse_cidr cs)" using that by simp
    then show ?thesis using parse_cidr_ok by fastforce
  qed
  with assms show ?thesis
    by (auto simp: config_rules_def loopback_rules_def rule_ok_def prefix_valid_def)
qed

lemma parsed_all: "(\<exists>s \<in> set cs. parse_cidr s = None) \<or> (\<exists>ps. map parse_cidr cs = map Some ps)"
proof (induction cs)
  case (Cons c cs)
  then show ?case
  proof (cases "parse_cidr c")
    case (Some p)
    with Cons show ?thesis by (auto intro: exI [of _ "p # _"])
  qed auto
qed simp

lemma buildACL_all:
  assumes "map parse_cidr (acl_Allow c) = map Some ps" "map parse_cidr (acl_Deny c) = map Some qs"
    and "Insert_all (bert_New (default_action c)) (config_rules ps qs) = Inr t"
  shows "buildACL c = Some (Inr t)"
proof -
  obtain t0 where t0: "Insert_all (bert_New (default_action c)) loopback_rules = Inr t0"
    "Insert_all t0 (map (\<lambda>p. (p, ActionAllow)) ps @ map (\<lambda>p. (p, ActionDeny)) qs) = Inr t"
    using assms(3) by (auto simp: config_rules_def Insert_all_append split: sum.splits)
  then obtain t1 where t1: "Insert_all t0 (map (\<lambda>p. (p, ActionAllow)) ps) = Inr t1" "Insert_all t1 (map (\<lambda>p. (p, ActionDeny)) qs) = Inr t"
    by (auto simp: Insert_all_append split: sum.splits)
  have "LoadCIDRs t0 (acl_Allow c) ActionAllow = Inr t1" "LoadCIDRs t1 (acl_Deny c) ActionDeny = Inr t"
    using LoadCIDRs_eq t1 assms(1,2) by blast+
  with t0(1) show ?thesis unfolding buildACL_def insert_loopback_eq Let_def default_action_def by simp
qed

lemma loopback_inserts: "\<exists>t. Insert_all (bert_New def) loopback_rules = Inr t"
proof -
  have "\<forall>r \<in> set loopback_rules. rule_ok r" by (auto simp: loopback_rules_def rule_ok_def prefix_valid_def)
  from MatchExplicit_lpm [OF this, of "V4 0" "def"] show ?thesis by (auto simp: IsValid_def)
qed

lemma buildACL_bad:
  assumes "s \<in> set (acl_Allow c @ acl_Deny c)" "parse_cidr s = None"
  shows "\<exists>e. buildACL c = Some (Inl e)"
proof -
  obtain t0 where t0: "Insert_all (bert_New (default_action c)) loopback_rules = Inr t0" using loopback_inserts by blast
  have no: "LoadCIDRs b cs act \<noteq> Inr b'" if "s \<in> set cs" for b cs act b'
  proof
    assume "LoadCIDRs b cs act = Inr b'"
    then obtain ps where "map parse_cidr cs = map Some ps" using LoadCIDRs_eq by blast
    moreover have "parse_cidr s \<in> set (map parse_cidr cs)" using that by simp
    ultimately have "parse_cidr s \<in> set (map Some ps)" by (simp only:)
    with assms(2) show False by auto
  qed
  show ?thesis
  proof (cases "LoadCIDRs t0 (acl_Allow c) ActionAllow")
    case (Inl e)
    with t0 show ?thesis unfolding buildACL_def insert_loopback_eq Let_def default_action_def by simp
  next
    case (Inr t1)
    with no assms(1) have "s \<in> set (acl_Deny c)" by auto
    then obtain e where "LoadCIDRs t1 (acl_Deny c) ActionDeny = Inl e" using no by (metis sum.exhaust)
    with Inr t0 show ?thesis unfolding buildACL_def insert_loopback_eq Let_def default_action_def by simp
  qed
qed

text \<open>
  C16: what the configured access list decides. When every entry parses, building the list
  succeeds, and the decision on a valid address is that of the longest prefix among loopback
  (allowed), the allow list and the deny list, the later of these for equal prefixes, and
  otherwise the default; when an entry does not parse, building fails and never panics.
\<close>

theorem configured_acl_decides:
  assumes "IsValid a"
  shows "if \<exists>s \<in> set (acl_Allow c @ acl_Deny c). parse_cidr s = None then \<exists>e. buildACL c = Some (Inl e)
    else \<exists>ps qs t. map parse_cidr (acl_Allow c) = map Some ps \<and> map parse_cidr (acl_Deny c) = map Some qs \<and>
      buildACL c = Some (Inr t) \<and>
      MatchExplicit t a = (case lpm (config_rules ps qs) a of None \<Rightarrow> (default_action c, False) | Some act \<Rightarrow> (act, True))"
proof (cases "\<exists>s \<in> set (acl_Allow c @ acl_Deny c). parse_cidr s = None")
  case True
  with buildACL_bad show ?thesis by (auto split: if_split)
next
  case False
  then have "\<not> (\<exists>s \<in> set (acl_Allow c). parse_cidr s = None)" "\<not> (\<exists>s \<in> set (acl_Deny c). parse_cidr s = None)" by auto
  then obtain ps qs where p: "map parse_cidr (acl_Allow c) = map Some ps" "map parse_cidr (acl_Deny c) = map Some qs"
    using parsed_all [of "acl_Allow c"] parsed_all [of "acl_Deny c"] by blast
  obtain t where t: "Insert_all (bert_New (default_action c)) (config_rules ps qs) = Inr t"
    "MatchExplicit t a = (case lpm (config_rules ps qs) a of None \<Rightarrow> (default_action c, False) | Some act \<Rightarrow> (act, True))"
    using MatchExplicit_lpm [OF config_rules_ok [OF p] assms] by blast
  from buildACL_all [OF p t(1)] p t(2) False show ?thesis by (simp only: if_False) blast
qed

definition office_acl :: ACLConfig where
  "office_acl = \<lparr>acl_Default = ''deny'', acl_Allow = [''10.0.0.0/8''], acl_Deny = [''10.6.0.0/16'']\<rparr>"

theorem configured_acl_decides_witness:
  "\<exists>t. buildACL office_acl = Some (Inr t) \<and> MatchExplicit t (V4 0x0A060001) = (ActionDeny, True)"
proof -
  have p: "parse_cidr ''10.0.0.0/8'' = Some (Prefix (V4 0x0A000000) 8)" "parse_cidr ''10.6.0.0/16'' = Some (Prefix (V4 0x0A060000) 16)"
    by code_simp+
  have l: "lpm (config_rules [Prefix (V4 0x0A000000) 8] [Prefix (V4 0x0A060000) 16]) (V4 0x0A060001) = Some ActionDeny"
    by code_simp
  have "IsValid (V4 0x0A060001)" by (simp add: IsValid_def)
  from configured_acl_decides [OF this, of office_acl] p l show ?thesis
    by (auto simp: office_acl_def map_eq_Cons_conv)
qed

text \<open>
  An entry of the deny list overrides the allowance of the loopback addresses that the
  documentation calls implicit.
\<close>

theorem loopback_can_be_denied:
  "\<exists>t. buildACL \<lparr>acl_Default = ''allow'', acl_Allow = [''127.0.0.0/8''], acl_Deny = [''127.0.0.0/8'']\<rparr> = Some (Inr t) \<and>
     MatchExplicit t (V4 0x7F000001) = (ActionDeny, True)"
proof -
  let ?c = "\<lparr>acl_Default = ''allow'', acl_Allow = [''127.0.0.0/8''], acl_Deny = [''127.0.0.0/8'']\<rparr>"
  have p: "parse_cidr ''127.0.0.0/8'' = Some (Prefix (V4 0x7F000000) 8)" by code_simp
  then have m: "map parse_cidr (acl_Allow ?c) = map Some [Prefix (V4 0x7F000000) 8]"
    "map parse_cidr (acl_Deny ?c) = map Some [Prefix (V4 0x7F000000) 8]" by simp_all
  have l: "lpm (config_rules [Prefix (V4 0x7F000000) 8] [Prefix (V4 0x7F000000) 8]) (V4 0x7F000001) = Some ActionDeny"
    by code_simp
  have "IsValid (V4 0x7F000001)" by (simp add: IsValid_def)
  from MatchExplicit_lpm [OF config_rules_ok [OF m] this, of "default_action ?c"] buildACL_all [OF m] l
  show ?thesis by auto
qed

subsection \<open>The next refresh\<close>

text \<open>
  C29: when the next refresh is due. After a failure it is due after the retry interval. After a
  success, for every configuration that passed validation, it is due strictly later than now,
  not later than one poll interval, and not later than the next occurrence of the configured
  time of day.
\<close>

theorem next_refresh_due:
  assumes "validate cfg = (None :: 'e config_error option)"
  shows "nextRefresh now cfg True = now + db_RetryOnFailure (c_Dbase cfg) \<and>
    now < nextRefresh now cfg False \<and> nextRefresh now cfg False \<le> now + db_PollInterval (c_Dbase cfg) \<and>
    (\<forall>d. db_DailyAt (c_Dbase cfg) \<noteq> [] \<longrightarrow> ParseDailyAt (db_DailyAt (c_Dbase cfg)) = Inr d \<longrightarrow>
      (\<forall>t. now < t \<and> t mod (24 * Hour) = tod d \<longrightarrow> nextRefresh now cfg False \<le> t))"
proof -
  have poll: "0 < db_PollInterval (c_Dbase cfg)"
    using assms unfolding validate_config_ok config_ok_def by simp
  show ?thesis
  proof (cases "db_DailyAt (c_Dbase cfg) = []")
    case True
    then show ?thesis using poll by (simp add: nextRefresh_def)
  next
    case False
    then obtain d where d: "ParseDailyAt (db_DailyAt (c_Dbase cfg)) = Inr d"
      using assms unfolding validate_config_ok config_ok_def by blast
    note n = daily_Next_spec [OF ParseDailyAt_ok [OF d], of now]
    have eq: "nextRefresh now cfg False =
        (if daily_Next d now < now + db_PollInterval (c_Dbase cfg) then daily_Next d now else now + db_PollInterval (c_Dbase cfg))"
      using False d by (simp add: nextRefresh_def Let_def)
    have "now < nextRefresh now cfg False" "nextRefresh now cfg False \<le> now + db_PollInterval (c_Dbase cfg)"
      "nextRefresh now cfg False \<le> daily_Next d now"
      unfolding eq using poll n(1) by (simp_all split: if_split)
    moreover have "nextRefresh now cfg False \<le> t" if "now < t" "t mod (24 * Hour) = tod d" for t
      using n(4) [OF that] calculation(3) by linarith
    moreover have "nextRefresh now cfg True = now + db_RetryOnFailure (c_Dbase cfg)" by (simp add: nextRefresh_def)
    ultimately show ?thesis using d by simp
  qed
qed

text \<open>A configuration that passes validation, with two sources in single format.\<close>

definition single_src :: "string \<Rightarrow> SourceConfig" where
  "single_src nm = \<lparr>so_Name = nm, so_Enabled = True, so_Format = ''single'', so_URL = ''http://h/'' @ nm @ ''.db.gz'',
     so_DBName = [], so_Classes = []\<rparr>"

definition sample_config :: Config where
  "sample_config = applyDefaults
     \<lparr>c_Server = \<lparr>sv_Bind = [], sv_ReadTimeout = 0, sv_WriteTimeout = 0, sv_MaxConcurrent = 0, sv_MaxQueryBytes = 0, sv_PidFile = []\<rparr>,
      c_Dbase = \<lparr>db_CacheDir = ''/c'', db_PollInterval = 0, db_DailyAt = [], db_RetryOnFailure = 0,
        db_Sources = [single_src ''arin'', single_src ''ripe'']\<rparr>,
      c_ACL = \<lparr>acl_Default = [], acl_Allow = [], acl_Deny = []\<rparr>,
      c_RateLimit = \<lparr>rc_Enabled = True, rc_RPS = F_Fin 5, rc_Burst = 10, rc_V4Prefix = 0, rc_V6Prefix = 0, rc_IdleTTL = 0\<rparr>,
      c_Stats = \<lparr>st_Enabled = True, st_DumpPath = [], st_DumpInterval = 0, st_HTTPBind = []\<rparr>,
      c_Log = \<lparr>lc_Level = []\<rparr>\<rparr>"

lemma sample_config_valid: "validate sample_config = (None :: 'e config_error option)"
  unfolding validate_config_ok config_ok_def
  using parse_two_oclock by (simp add: sample_config_def defaults_defs single_src_def source_ok_def rate_ok_def f64_le0_def)

theorem next_refresh_due_witness: "nextRefresh 0 sample_config False \<le> Hour"
  using next_refresh_due [OF sample_config_valid, of 0] by (simp add: sample_config_def defaults_defs)

theorem validate_exact_witness:
  "validate sample_config = (None :: string config_error option) \<and>
   validate (sample_config\<lparr>c_Stats := (c_Stats sample_config)\<lparr>st_DumpInterval := 10 * Millisecond\<rparr>\<rparr>) \<noteq> (None :: string config_error option)"
  unfolding validate_exact using parse_two_oclock
  by (simp add: sample_config_def defaults_defs single_src_def source_ok_def rate_ok_def f64_le0_def)

subsection \<open>A round of refresh\<close>

lemma refresh_cases:
  "case refresh u env cfg fs m of
     (fs', m', Inl e) \<Rightarrow> m' = m
   | (fs', m', Inr (rebuilt, rep)) \<Rightarrow>
       \<exists>fetched. FetchAll (rn_dl env) (db_CacheDir (c_Dbase cfg)) (rn_fetch_order env)
           (configSourcesToRIPE (db_Sources (c_Dbase cfg))) fs = (fs', Inr fetched) \<and>
         (if rebuilt
          then \<exists>ins. mset ins = mset (file_objects (rn_files env fs') (rn_ctx env) fetched) \<and>
                 file_errors (rn_files env fs') (rn_ctx env) fetched = [] \<and>
                 m_cur m' = fold (\<lambda>x. store_Insert u (fst x) (snd x)) ins NewStore \<and> m_lastReload m' = rn_now env
          else m' = m \<and> \<not> IsEmpty m \<and> \<not> list_ex sf_Changed fetched)"
proof -
  obtain fs' r where F: "FetchAll (rn_dl env) (db_CacheDir (c_Dbase cfg)) (rn_fetch_order env)
      (configSourcesToRIPE (db_Sources (c_Dbase cfg))) fs = (fs', r)" by fastforce
  show ?thesis
  proof (cases r)
    case (Inl e)
    then show ?thesis by (simp add: refresh_def F)
  next
    case (Inr fetched)
    let ?R = "Reload u (rn_files env fs') (rn_ctx env) (rn_load_order env) (rn_now env) fetched (IsEmpty m) m"
    show ?thesis
    proof (cases "IsEmpty m \<or> list_ex sf_Changed fetched \<or> IsEmpty m")
      case False
      then have "?R = (m, False, None)" by (simp add: Reload_def)
      with False Inr F show ?thesis by (simp add: refresh_def)
    next
      case True
      note cases = Reload_cases [OF True, of "rn_files env fs'" "rn_ctx env" u "rn_load_order env" "rn_now env"]
      show ?thesis
      proof (cases "file_errors (rn_files env fs') (rn_ctx env) fetched = []")
        case ok: True
        with cases obtain ins where "mset ins = mset (file_objects (rn_files env fs') (rn_ctx env) fetched)"
          "?R = (m\<lparr>m_cur := fold (\<lambda>x. store_Insert u (fst x) (snd x)) ins NewStore, m_lastReload := rn_now env\<rparr>, True, None)"
          by auto
        with ok Inr F show ?thesis by (auto simp: refresh_def)
      next
        case bad: False
        with cases obtain e where "?R = (m, False, Some e)" by auto
        with Inr F show ?thesis by (simp add: refresh_def)
      qed
    qed
  qed
qed

text \<open>
  C17: a round of refresh is safe. When it reports an error the store is the one before the
  round. When it reports success it either kept a non-empty store because no downloaded file
  had changed, or swapped in a store with exactly the objects of the files that were
  downloaded or found unchanged in this round, each under its source.
\<close>

theorem refresh_is_safe:
  "case refresh u env cfg fs m of
     (fs', m', Inl e) \<Rightarrow> m' = m
   | (fs', m', Inr (rebuilt, rep)) \<Rightarrow>
       \<exists>fetched. FetchAll (rn_dl env) (db_CacheDir (c_Dbase cfg)) (rn_fetch_order env)
           (configSourcesToRIPE (db_Sources (c_Dbase cfg))) fs = (fs', Inr fetched) \<and>
         (if rebuilt
          then \<exists>ins. mset ins = mset (file_objects (rn_files env fs') (rn_ctx env) fetched) \<and>
                 file_errors (rn_files env fs') (rn_ctx env) fetched = [] \<and>
                 m_cur m' = fold (\<lambda>x. store_Insert u (fst x) (snd x)) ins NewStore \<and> m_lastReload m' = rn_now env
          else m' = m \<and> \<not> IsEmpty m \<and> \<not> list_ex sf_Changed fetched)"
  by (rule refresh_cases)

lemma file_objects_sources: "x \<in> set (file_objects env ctx fetched) \<Longrightarrow> snd x \<in> sf_Source ` set fetched"
  by (auto simp: file_objects_def enumerate_eq_zip dest: set_zip_rightD)

lemma no_source_no_count:
  "mset ins = mset (file_objects env ctx fetched) \<Longrightarrow> src \<notin> sf_Source ` set fetched \<Longrightarrow>
     gmap_int (CountsBySource (store_of u ins)) src = 0"
proof -
  assume a: "mset ins = mset (file_objects env ctx fetched)" "src \<notin> sf_Source ` set fetched"
  then have "filter (\<lambda>x. snd x = src) ins = []"
    using file_objects_sources [of _ env ctx fetched] mset_eq_setD [OF a(1)] unfolding filter_empty_conv by blast
  then show ?thesis by (simp add: CountsBySource_def store_of_fields)
qed

text \<open>
  A source that failed once stays missing. If a round rebuilds the store while the fetch of
  a source fails, the round reports success although the store has no object of that source
  (its files may be in the cache); and if in the next round every file, this source's too, is
  reported unchanged, that round keeps the store as it is: the source is not restored until
  some file changes.
\<close>

theorem failed_source_stays_missing:
  assumes "refresh u env1 cfg fs m = (fs1, m1, Inr (True, rep))"
    and "FetchAll (rn_dl env1) (db_CacheDir (c_Dbase cfg)) (rn_fetch_order env1) (configSourcesToRIPE (db_Sources (c_Dbase cfg))) fs =
      (fs1, Inr fetched1)" and "src \<notin> sf_Source ` set fetched1"
    and "FetchAll (rn_dl env2) (db_CacheDir (c_Dbase cfg)) (rn_fetch_order env2) (configSourcesToRIPE (db_Sources (c_Dbase cfg))) fs1 =
      (fs2, Inr fetched2)" and "\<not> list_ex sf_Changed fetched2" and "\<not> IsEmpty m1"
  shows "gmap_int (CountsBySource (Current m1)) src = 0 \<and> refresh u env2 cfg fs1 m1 = (fs2, m1, Inr (False, PollNoChanges (length fetched2)))"
proof -
  obtain ins where "mset ins = mset (file_objects (rn_files env1 fs1) (rn_ctx env1) fetched1)" "m_cur m1 = store_of u ins"
    using refresh_cases [where u = u and env = env1 and cfg = cfg and fs = fs and m = m] assms(1,2) by (auto simp: store_of_def insert_all_def)
  then have "gmap_int (CountsBySource (Current m1)) src = 0"
    using no_source_no_count [OF _ assms(3)] by (simp add: Current_def)
  moreover have "refresh u env2 cfg fs1 m1 = (fs2, m1, Inr (False, PollNoChanges (length fetched2)))"
    using assms(4-6) by (simp add: refresh_def Reload_def)
  ultimately show ?thesis by blast
qed

text \<open>The network of the witness: RIPE is down in the first round; in the second nothing has changed.\<close>

definition round_one :: "string round_env" where
  "round_one = \<lparr>rn_dl = example_env\<lparr>client_Do := \<lambda>url ims. if url = ''http://h/ripe.db.gz'' then Inl ''down''
       else Inr \<lparr>StatusCode = 200, Body = (''new'', None), LastModified = ''d''\<rparr>\<rparr>,
     rn_fetch_order = [], rn_files = \<lambda>_. \<lparr>os_open = \<lambda>_. Inr (print_blocks rpsl_example, AtEOF), gunzip = Inr\<rparr>,
     rn_ctx = \<lambda>_ _. None, rn_load_order = [], rn_now = 5\<rparr>"

definition round_two :: "string round_env" where
  "round_two = round_one\<lparr>rn_dl := example_env\<lparr>client_Do := \<lambda>url ims. Inr \<lparr>StatusCode = 304, Body = ([], None), LastModified = []\<rparr>\<rparr>\<rparr>"

definition cached :: "string \<Rightarrow> bool \<Rightarrow> SourceFile" where
  "cached nm ch = \<lparr>sf_Source = nm, sf_Class = [], sf_Path = ''/c/'' @ nm @ ''/'' @ nm @ ''.db.gz'', sf_Changed = ch\<rparr>"

abbreviation sample_sources :: "Source list" where
  "sample_sources \<equiv> configSourcesToRIPE (db_Sources (c_Dbase sample_config))"

lemma sample_dir: "db_CacheDir (c_Dbase sample_config) = ''/c''"
  by (simp add: sample_config_def defaults_defs)

text \<open>The two planned fetches, and a round of both of them.\<close>

definition sample_fetch :: "string \<Rightarrow> plannedFetch" where
  "sample_fetch nm = \<lparr>pf_src = nm, pf_dir = ''/c/'' @ nm,
     pf_spec = \<lparr>fs_URL = ''http://h/'' @ nm @ ''.db.gz'', fs_LocalName = nm @ ''.db.gz'', fs_Class = []\<rparr>\<rparr>"

lemma sample_dst:
  "path_join ''/c/arin'' ''arin.db.gz'' = ''/c/arin/arin.db.gz''" "path_join ''/c/ripe'' ''ripe.db.gz'' = ''/c/ripe/ripe.db.gz''"
  by code_simp+

lemma sample_fetch_all:
  assumes "mkdir_err env ''/c'' = None" "plan_fetches env ''/c'' sample_sources = Inr [sample_fetch ''arin'', sample_fetch ''ripe'']"
    and "fetch_one env (sample_fetch ''arin'') fs = (fs1, r1)" "fetch_one env (sample_fetch ''ripe'') fs1 = (fs2, r2)"
  shows "FetchAll env ''/c'' [] sample_sources fs =
    (case collect_results [r1, r2] [] None of
       (out, Some e) \<Rightarrow> if out = [] then (fs2, Inl (FetchError e)) else (fs2, Inr out) | (out, None) \<Rightarrow> (fs2, Inr out))"
proof -
  have order: "finish_order 2 [] = [0, 1]" by code_simp
  have len: "length [sample_fetch ''arin'', sample_fetch ''ripe''] = 2" by simp
  have run: "fetch_run env [sample_fetch ''arin'', sample_fetch ''ripe''] fs = (fs2, [r1, r2])" using assms(3,4) by simp
  show ?thesis
    unfolding FetchAll_def assms(1,2) option.case sum.case len order Let_def
    using run by (simp add: Let_def split: option.split prod.split)
qed

lemma snd_fetch_one:
  "snd (fetch_one env p fs) =
     (let dst = path_join (pf_dir p) (fs_LocalName (pf_spec p))
      in case snd (fetchURL env (fs_URL (pf_spec p)) dst fs) of
           Inl e \<Rightarrow> Inl e
         | Inr changed \<Rightarrow> Inr \<lparr>sf_Source = pf_src p, sf_Class = fs_Class (pf_spec p), sf_Path = dst, sf_Changed = changed\<rparr>)"
  by (cases "fetchURL env (fs_URL (pf_spec p)) (path_join (pf_dir p) (fs_LocalName (pf_spec p))) fs")
     (auto simp: fetch_one_def Let_def split: sum.split)

lemma round_one_fetched: "\<exists>fs1. FetchAll (rn_dl round_one) ''/c'' (rn_fetch_order round_one) sample_sources fs = (fs1, Inr [cached ''arin'' True])"
proof -
  let ?env = "rn_dl round_one"
  have url: "snd (fetchURL ?env url dst fs) = (if url = ''http://h/ripe.db.gz'' then Inl (GetError url ''down'') else Inr True)" for url dst fs
    by (simp add: fetchURL_def save_body_def round_one_def example_env_def Let_def)
  have one: "snd (fetch_one ?env (sample_fetch ''arin'') fs) = Inr (cached ''arin'' True)"
    "snd (fetch_one ?env (sample_fetch ''ripe'') fs) = Inl (GetError ''http://h/ripe.db.gz'' ''down'')" for fs
    by (simp_all add: snd_fetch_one url sample_fetch_def sample_dst cached_def)
  obtain fs1 fs2 where f: "fetch_one ?env (sample_fetch ''arin'') fs = (fs1, Inr (cached ''arin'' True))"
    "fetch_one ?env (sample_fetch ''ripe'') fs1 = (fs2, Inl (GetError ''http://h/ripe.db.gz'' ''down''))"
    using one by (metis prod.collapse)
  have mk: "mkdir_err ?env ''/c'' = None" by (simp add: round_one_def example_env_def)
  have plan: "plan_fetches ?env ''/c'' sample_sources = Inr [sample_fetch ''arin'', sample_fetch ''ripe'']" by code_simp
  have order: "rn_fetch_order round_one = []" by (simp add: round_one_def)
  from sample_fetch_all [OF mk plan f] show ?thesis unfolding order by simp
qed

lemma round_two_fetched:
  "FetchAll (rn_dl round_two) ''/c'' (rn_fetch_order round_two) sample_sources fs = (fs, Inr [cached ''arin'' False, cached ''ripe'' False])"
proof -
  let ?env = "rn_dl round_two"
  have url: "fetchURL ?env url dst fs = (fs, Inr False)" for url dst fs
    by (simp add: fetchURL_def round_two_def example_env_def)
  have f: "fetch_one ?env (sample_fetch ''arin'') fs = (fs, Inr (cached ''arin'' False))"
    "fetch_one ?env (sample_fetch ''ripe'') fs = (fs, Inr (cached ''ripe'' False))"
    by (simp_all add: fetch_one_def url sample_fetch_def sample_dst cached_def)
  have mk: "mkdir_err ?env ''/c'' = None" by (simp add: round_two_def example_env_def)
  have plan: "plan_fetches ?env ''/c'' sample_sources = Inr [sample_fetch ''arin'', sample_fetch ''ripe'']" by code_simp
  have order: "rn_fetch_order round_two = []" by (simp add: round_two_def round_one_def)
  from sample_fetch_all [OF mk plan f] show ?thesis unfolding order by simp
qed

lemma round_one_parsed:
  "parse_file (rn_files round_one fs) (rn_ctx round_one i) f = (block_objects rpsl_example, None)"
  using parsed_print [OF rpsl_example_ok, where 'e = string]
  by (simp add: parse_file_def Parse_def round_one_def parseStream_collect read_error_def)

lemma round_one_refresh:
  assumes "FetchAll (rn_dl round_one) (db_CacheDir (c_Dbase sample_config)) (rn_fetch_order round_one) sample_sources fs = (fs1, Inr fl)"
    and "fl \<noteq> []"
  shows "\<exists>m rep. \<not> IsEmpty m \<and> refresh u round_one sample_config fs NewManager = (fs1, m, Inr (True, rep))"
proof -
  let ?env = "rn_files round_one fs1"
  have errs: "file_errors ?env (rn_ctx round_one) fl = []"
    by (simp add: file_errors_def round_one_parsed case_prod_beta)
  have empty: "IsEmpty NewManager" by (simp add: IsEmpty_def NewManager_def)
  obtain ins where ins: "mset ins = mset (file_objects ?env (rn_ctx round_one) fl)"
    "Reload u ?env (rn_ctx round_one) (rn_load_order round_one) (rn_now round_one) fl True NewManager =
       (NewManager\<lparr>m_cur := store_of u ins, m_lastReload := rn_now round_one\<rparr>, True, None)"
    using Reload_cases [of True fl NewManager ?env "rn_ctx round_one" u "rn_load_order round_one" "rn_now round_one"] errs
    by (auto simp: store_of_def insert_all_def)
  have "block_objects rpsl_example \<noteq> []" by code_simp
  then have "file_objects ?env (rn_ctx round_one) fl \<noteq> []"
    using assms(2) by (cases fl) (simp_all add: file_objects_def round_one_parsed)
  then have "ins \<noteq> []" using ins(1) by auto
  then have "\<not> IsEmpty (NewManager\<lparr>m_cur := store_of u ins, m_lastReload := rn_now round_one\<rparr>)"
    by (simp add: IsEmpty_def store_of_def byKey_empty_iff)
  then show ?thesis using assms(1) ins(2) empty by (simp add: refresh_def)
qed

theorem failed_source_stays_missing_witness:
  "\<exists>fs1 m1 rep. refresh u round_one sample_config Mapping.empty NewManager = (fs1, m1, Inr (True, rep)) \<and>
     refresh u round_two sample_config fs1 m1 = (fs1, m1, Inr (False, PollNoChanges 2)) \<and>
     gmap_int (CountsBySource (Current m1)) ''ripe'' = 0"
proof -
  obtain fs1 where F1: "FetchAll (rn_dl round_one) (db_CacheDir (c_Dbase sample_config)) (rn_fetch_order round_one) sample_sources
      Mapping.empty = (fs1, Inr [cached ''arin'' True])"
    using round_one_fetched unfolding sample_dir by blast
  obtain m1 rep where r1: "refresh u round_one sample_config Mapping.empty NewManager = (fs1, m1, Inr (True, rep))" and ne: "\<not> IsEmpty m1"
    using round_one_refresh [OF F1, of u] by auto
  have src: "''ripe'' \<notin> sf_Source ` set [cached ''arin'' True]" by (simp add: cached_def)
  have ch: "\<not> list_ex sf_Changed [cached ''arin'' False, cached ''ripe'' False]" by (simp add: cached_def)
  from failed_source_stays_missing [OF r1 F1 src round_two_fetched [of fs1, folded sample_dir] ch ne] r1
  show ?thesis by (simp add: numeral_2_eq_2)
qed

end
