(* ===== verification/Start_Props.thy ===== *)
theory Start_Props
  imports Program_Props
begin

section \<open>Starting and reloading the daemon\<close>

text \<open>
  When the daemon starts, exits or panics, what a failed start leaves behind, and that a reload
  brings the reloadable part of the program to the state a restart would give.
\<close>

subsection \<open>Starting\<close>

definition limiter_builds :: "RateLimitConfig \<Rightarrow> bool" where
  "limiter_builds c \<longleftrightarrow> (rc_Enabled c \<longrightarrow> 0 < rc_IdleTTL c sdiv 2)"

lemma buildLimiter_None: "buildLimiter c = (None :: (f64, 'l) Limiter option) \<longleftrightarrow> rc_IdleTTL c sdiv 2 \<le> 0"
  by (simp add: buildLimiter_def limiter_New_def)

lemma build_server_None: "build_server cfg m t l r = None \<longleftrightarrow> sv_MaxConcurrent (c_Server cfg) < 0"
  by (simp add: build_server_def server_New_def)

definition limiter_of :: "RateLimitConfig \<Rightarrow> (f64, 'l) Limiter option" where
  "limiter_of c = (if rc_Enabled c then buildLimiter c else None)"

lemma daemon_start_cases:
  assumes "writePidFile penv pid (sv_PidFile (c_Server cfg)) fs = (fs1, perr)" "buildACL (c_ACL cfg) = Some (Inr tree)"
    and "refresh u env cfg fs1 NewManager = (fs2, m, Inr ok)"
  shows "if limiter_builds (c_RateLimit cfg) \<and> 0 \<le> sv_MaxConcurrent (c_Server cfg)
    then \<exists>p :: 'l program. daemon_start u penv pid env t0 cfg fs = (fs2, Runs p) \<and>
      s_acl (pr_server p) = tree \<and> s_limiter (pr_server p) = limiter_of (c_RateLimit cfg) \<and> s_store (pr_server p) = m \<and>
      log_level (pr_logger p) = log_level (setLevelVar (lc_Level (c_Log cfg)) (newLogger LevelInfo)) \<and>
      BindAddr (pr_listener p) = sv_Bind (c_Server cfg) \<and>
      map_option d_Interval (pr_dumper p) = (if st_Enabled (c_Stats cfg) then Some (st_DumpInterval (c_Stats cfg)) else None)
    else \<exists>fs'. (daemon_start u penv pid env t0 cfg fs :: fs \<times> 'l start) = (fs', Panics)"
proof (cases "limiter_builds (c_RateLimit cfg)")
  case False
  then have en: "rc_Enabled (c_RateLimit cfg)" and n: "buildLimiter (c_RateLimit cfg) = (None :: (f64, 'l) Limiter option)"
    by (auto simp: limiter_builds_def buildLimiter_None)
  then have "(daemon_start u penv pid env t0 cfg fs :: fs \<times> 'l start) = (fs1, Panics)"
    using assms by (simp add: daemon_start_def Let_def)
  with False show ?thesis by simp
next
  case True
  define lm0 :: "(f64, 'l) Limiter option option" where
    "lm0 = (if rc_Enabled (c_RateLimit cfg) then map_option Some (buildLimiter (c_RateLimit cfg)) else Some None)"
  have lm: "lm0 = Some (limiter_of (c_RateLimit cfg))"
    using True buildLimiter_None [of "c_RateLimit cfg", where 'l = 'l]
    by (auto simp: lm0_def limiter_of_def limiter_builds_def)
  obtain d h where dh: "build_dumper cfg = (d, h)" by fastforce
  have start: "daemon_start u penv pid env t0 cfg fs =
      (case build_server cfg m tree (limiter_of (c_RateLimit cfg) :: (f64, 'l) Limiter option) (NewRegistry t0) of
         None \<Rightarrow> (fs2, Panics)
       | Some srv \<Rightarrow> (fs2, Runs \<lparr>pr_logger = setLevelVar (lc_Level (c_Log cfg)) (newLogger LevelInfo), pr_server = srv,
           pr_listener = listener_New (sv_Bind (c_Server cfg)), pr_dumper = d, pr_http = h\<rparr>))"
    using assms lm dh unfolding daemon_start_def lm0_def by simp
  show ?thesis
  proof (cases "0 \<le> sv_MaxConcurrent (c_Server cfg)")
    case False
    then have "build_server cfg m tree (limiter_of (c_RateLimit cfg) :: (f64, 'l) Limiter option) (NewRegistry t0) = None"
      by (simp add: build_server_None)
    with False start show ?thesis by simp
  next
    case nn: True
    then obtain srv where srv: "build_server cfg m tree (limiter_of (c_RateLimit cfg) :: (f64, 'l) Limiter option) (NewRegistry t0) = Some srv"
      using build_server_None by (metis not_le option.exhaust)
    have "s_acl srv = tree" "s_limiter srv = limiter_of (c_RateLimit cfg)" "s_store srv = m"
      using srv by (auto simp: build_server_def server_New_def split: if_splits)
    moreover have "map_option d_Interval d = (if st_Enabled (c_Stats cfg) then Some (st_DumpInterval (c_Stats cfg)) else None)"
      using dh by (auto simp: build_dumper_def split: if_splits)
    ultimately show ?thesis using True nn start srv by (simp add: BindAddr_def listener_New_def)
  qed
qed

text \<open>
  When the daemon starts. With a configuration whose access list builds and a first round of
  refresh that succeeds, the daemon runs with this list, the configured limiter, log level,
  address and dump interval, and the store of that round, unless the number of connections is
  negative or the limiter is enabled with an idle time below two nanoseconds; then it panics.
\<close>

theorem daemon_starts_or_panics:
  assumes "writePidFile penv pid (sv_PidFile (c_Server cfg)) fs = (fs1, perr)" and "buildACL (c_ACL cfg) = Some (Inr tree)"
    and "refresh u env cfg fs1 NewManager = (fs2, m, Inr ok)"
  shows "if limiter_builds (c_RateLimit cfg) \<and> 0 \<le> sv_MaxConcurrent (c_Server cfg)
    then \<exists>p :: 'l program. daemon_start u penv pid env t0 cfg fs = (fs2, Runs p) \<and>
      s_acl (pr_server p) = tree \<and> s_limiter (pr_server p) = limiter_of (c_RateLimit cfg) \<and> s_store (pr_server p) = m \<and>
      log_level (pr_logger p) = log_level (setLevelVar (lc_Level (c_Log cfg)) (newLogger LevelInfo)) \<and>
      BindAddr (pr_listener p) = sv_Bind (c_Server cfg) \<and>
      map_option d_Interval (pr_dumper p) = (if st_Enabled (c_Stats cfg) then Some (st_DumpInterval (c_Stats cfg)) else None)
    else \<exists>fs'. (daemon_start u penv pid env t0 cfg fs :: fs \<times> 'l start) = (fs', Panics)"
  using assms by (rule daemon_start_cases)

lemma sample_start_facts:
  "\<exists>fs0 perr tree fs1 m rep. writePidFile quiet_env 4711 (sv_PidFile (c_Server sample_config)) Mapping.empty = (fs0, perr) \<and>
     buildACL (c_ACL sample_config) = Some (Inr tree) \<and> refresh u round_one sample_config fs0 NewManager = (fs1, m, Inr (True, rep))"
proof -
  let ?c = sample_config
  let ?fs = "fst (writePidFile quiet_env 4711 (sv_PidFile (c_Server ?c)) Mapping.empty)"
  obtain perr where w: "writePidFile quiet_env 4711 (sv_PidFile (c_Server ?c)) Mapping.empty = (?fs, perr)"
    by (metis prod.collapse)
  have p: "map parse_cidr (acl_Allow (c_ACL ?c)) = map Some []" "map parse_cidr (acl_Deny (c_ACL ?c)) = map Some []"
    by (simp_all add: sample_config_def defaults_defs)
  have "IsValid (V4 0)" by (simp add: IsValid_def)
  from MatchExplicit_lpm [OF config_rules_ok [OF p] this, of "default_action (c_ACL ?c)"] buildACL_all [OF p]
  obtain tree where tree: "buildACL (c_ACL ?c) = Some (Inr tree)" by blast
  obtain fs1 where F: "FetchAll (rn_dl round_one) (db_CacheDir (c_Dbase ?c)) (rn_fetch_order round_one) sample_sources ?fs =
      (fs1, Inr [cached ''arin'' True])"
    using round_one_fetched unfolding sample_dir by blast
  then obtain m rep where "refresh u round_one ?c ?fs NewManager = (fs1, m, Inr (True, rep))"
    using round_one_refresh [OF F, of u] by auto
  with w tree show ?thesis by blast
qed

lemma sample_builds: "limiter_builds (c_RateLimit sample_config) \<and> 0 \<le> sv_MaxConcurrent (c_Server sample_config)"
  by code_simp

lemma sample_starts:
  "\<exists>fs' q. (daemon_start u quiet_env 4711 round_one 0 sample_config Mapping.empty :: fs \<times> 'l start) = (fs', Runs q)"
proof -
  obtain fs0 perr tree fs1 m rep where f: "writePidFile quiet_env 4711 (sv_PidFile (c_Server sample_config)) Mapping.empty = (fs0, perr)"
    "buildACL (c_ACL sample_config) = Some (Inr tree)" "refresh u round_one sample_config fs0 NewManager = (fs1, m, Inr (True, rep))"
    using sample_start_facts by blast
  from daemon_start_cases [OF f, of 0, where 'l = 'l] sample_builds show ?thesis by (simp only: if_True simp_thms) blast
qed

theorem daemon_starts_or_panics_witness:
  "\<exists>fs' p. (daemon_start ascii_unicode quiet_env 4711 round_one 0 sample_config Mapping.empty :: fs \<times> int start) = (fs', Runs p) \<and>
     BindAddr (pr_listener p) = ''0.0.0.0:43''"
proof -
  obtain fs0 perr tree fs1 m rep where f: "writePidFile quiet_env 4711 (sv_PidFile (c_Server sample_config)) Mapping.empty = (fs0, perr)"
    "buildACL (c_ACL sample_config) = Some (Inr tree)" "refresh ascii_unicode round_one sample_config fs0 NewManager = (fs1, m, Inr (True, rep))"
    using sample_start_facts by blast
  have "sv_Bind (c_Server sample_config) = ''0.0.0.0:43''" by (simp add: sample_config_def defaults_defs)
  with daemon_starts_or_panics [OF f, of 0, where 'l = int] sample_builds show ?thesis by (simp only: if_True simp_thms) auto
qed

text \<open>
  Validation does not rule the panics out: a configuration with a negative number of
  connections, and one with a negative idle time, pass the validation and make the start
  panic. One with a negative write timeout passes too, and its server writes without a deadline
  (then \<open>stalled_client_keeps_slot\<close> applies).
\<close>

theorem validation_gaps:
  "\<exists>c1 c2 c3. validate c1 = (None :: string config_error option) \<and> validate c2 = (None :: string config_error option) \<and>
     (\<forall>m t l r. build_server c1 m t (l :: (f64, 'l) Limiter option) r = None) \<and>
     rc_Enabled (c_RateLimit c2) \<and> buildLimiter (c_RateLimit c2) = (None :: (f64, 'l) Limiter option) \<and>
     validate c3 = (None :: string config_error option) \<and>
     (\<forall>m t l r srv. build_server c3 m t (l :: (f64, 'l) Limiter option) r = Some srv \<longrightarrow> cfg_WriteTimeout (s_cfg srv) < 0)"
proof (intro exI conjI allI impI)
  let ?c1 = "sample_config\<lparr>c_Server := (c_Server sample_config)\<lparr>sv_MaxConcurrent := -1\<rparr>\<rparr>"
  let ?c2 = "sample_config\<lparr>c_RateLimit := (c_RateLimit sample_config)\<lparr>rc_IdleTTL := -1\<rparr>\<rparr>"
  show "validate ?c1 = (None :: string config_error option)" "validate ?c2 = (None :: string config_error option)"
    using sample_config_valid [where 'e = string] unfolding validate_config_ok config_ok_def rate_ok_def by simp_all
  show "build_server ?c1 m t (l :: (f64, 'l) Limiter option) r = None" for m t l r
    by (simp add: build_server_None)
  show "rc_Enabled (c_RateLimit ?c2)" by (simp add: sample_config_def defaults_defs)
  show "buildLimiter (c_RateLimit ?c2) = (None :: (f64, 'l) Limiter option)"
    unfolding buildLimiter_None by (simp, code_simp)
  let ?c3 = "sample_config\<lparr>c_Server := (c_Server sample_config)\<lparr>sv_WriteTimeout := -1\<rparr>\<rparr>"
  show "validate ?c3 = (None :: string config_error option)"
    using sample_config_valid [where 'e = string] unfolding validate_config_ok config_ok_def rate_ok_def by simp_all
  show "cfg_WriteTimeout (s_cfg srv) < 0" if "build_server ?c3 m t (l :: (f64, 'l) Limiter option) r = Some srv" for m t l r srv
    using that by (auto simp: build_server_def server_New_def split: if_splits)
qed

text \<open>
  A failed start leaves the pid file. When the access list does not build, the daemon exits
  with status 2 after it wrote the pid file, and the file keeps the id of the dead process:
  the reload command then signals whatever process has this id.
\<close>

theorem failed_start_leaves_pid:
  assumes "writePidFile penv pid (sv_PidFile (c_Server cfg)) fs = (fs1, None)" and "sv_PidFile (c_Server cfg) \<noteq> []"
    and "buildACL (c_ACL cfg) = Some (Inl e)" and "0 \<le> pid" and "pid < 2 ^ 63"
    and "pd_read penv (sv_PidFile (c_Server cfg)) = None" and "pd_find penv pid = None" and "pd_signal penv pid = None"
  shows "(daemon_start u penv pid env t0 cfg fs :: fs \<times> 'l start) = (fs1, Exits 2) \<and>
    sendReload penv (sv_PidFile (c_Server cfg)) fs1 = Inr pid"
proof -
  have "os_ReadFile penv fs1 (sv_PidFile (c_Server cfg)) = Inr (Itoa pid @ [CHR 0x0A])"
    using writePidFile_None [OF assms(1,2)] assms(6) by (simp add: os_ReadFile_def)
  then have "sendReload penv (sv_PidFile (c_Server cfg)) fs1 = Inr pid"
    using Atoi_pid_line [OF assms(4,5)] assms(2,7,8) by (simp add: sendReload_def)
  moreover have "(daemon_start u penv pid env t0 cfg fs :: fs \<times> 'l start) = (fs1, Exits 2)"
    using assms(1,3) by (simp add: daemon_start_def Let_def)
  ultimately show ?thesis by blast
qed

definition bad_acl_config :: Config where
  "bad_acl_config = sample_config\<lparr>c_ACL := (c_ACL sample_config)\<lparr>acl_Deny := [''nonsense'']\<rparr>\<rparr>"

theorem failed_start_leaves_pid_witness:
  "\<exists>fs1. (daemon_start u quiet_env 4711 env t0 bad_acl_config Mapping.empty :: fs \<times> int start) = (fs1, Exits 2) \<and>
     sendReload quiet_env ''/run/whoisd.pid'' fs1 = Inr 4711"
proof -
  have path: "sv_PidFile (c_Server bad_acl_config) = ''/run/whoisd.pid''"
    by (simp add: bad_acl_config_def sample_config_def defaults_defs)
  obtain fs1 where w: "writePidFile quiet_env 4711 (sv_PidFile (c_Server bad_acl_config)) Mapping.empty = (fs1, None)"
    by (simp add: writePidFile_def quiet_env_def path Let_def)
  have "parse_cidr ''nonsense'' = None" by code_simp
  then obtain e where e: "buildACL (c_ACL bad_acl_config) = Some (Inl e)"
    using buildACL_bad [of "''nonsense''" "c_ACL bad_acl_config"] by (auto simp: bad_acl_config_def)
  have q: "pd_read quiet_env (sv_PidFile (c_Server bad_acl_config)) = None" "pd_find quiet_env 4711 = None" "pd_signal quiet_env 4711 = None"
    by (simp_all add: quiet_env_def)
  from failed_start_leaves_pid [OF w _ e _ _ q, of u env t0] path show ?thesis by auto
qed

subsection \<open>Reloading\<close>

lemma reload_limiter_eq:
  "limiter_builds c \<Longrightarrow> \<exists>msg. reload_limiter c p = Some (p\<lparr>pr_server := SetLimiter (limiter_of c) (pr_server p)\<rparr>, msg)"
  using buildLimiter_None [of c]
  by (cases "buildLimiter c") (auto simp: reload_limiter_def limiter_of_def limiter_builds_def)

lemma applyReload_cases:
  assumes "buildACL (c_ACL cfg) = Some acl" "limiter_builds (c_RateLimit cfg)"
  shows "\<exists>p' log. applyReload (Inr cfg) (listen_err :: 'e option) (p :: 'l program) = Some (p', log) \<and>
    s_acl (pr_server p') = (case acl of Inr t \<Rightarrow> t | Inl _ \<Rightarrow> s_acl (pr_server p)) \<and>
    s_limiter (pr_server p') = limiter_of (c_RateLimit cfg) \<and>
    pr_logger p' = setLevelVar (lc_Level (c_Log cfg)) (pr_logger p) \<and>
    pr_dumper p' = (if 0 < st_DumpInterval (c_Stats cfg) then map_option (SetInterval (st_DumpInterval (c_Stats cfg))) (pr_dumper p)
      else pr_dumper p) \<and>
    pr_listener p' = (if sv_Bind (c_Server cfg) \<noteq> [] \<and> sv_Bind (c_Server cfg) \<noteq> BindAddr (pr_listener p)
      then fst (Rebind (sv_Bind (c_Server cfg)) listen_err (pr_listener p)) else pr_listener p) \<and>
    s_store (pr_server p') = s_store (pr_server p) \<and> s_stats (pr_server p') = s_stats (pr_server p) \<and>
    s_sem (pr_server p') = s_sem (pr_server p) \<and> s_cfg (pr_server p') = s_cfg (pr_server p) \<and>
    s_log (pr_server p') = s_log (pr_server p) \<and> pr_http p' = pr_http p"
proof -
  obtain p1 m1 where p1: "reload_acl (c_ACL cfg) p = Some (p1, m1 :: 'e reload_log)"
    "p1 = p\<lparr>pr_server := (pr_server p)\<lparr>s_acl := (case acl of Inr t \<Rightarrow> t | Inl _ \<Rightarrow> s_acl (pr_server p))\<rparr>\<rparr>"
    using assms(1) by (cases acl) (auto simp: reload_acl_def SetACL_def)
  obtain m2 where p2: "reload_limiter (c_RateLimit cfg) p1 =
      Some (p1\<lparr>pr_server := SetLimiter (limiter_of (c_RateLimit cfg)) (pr_server p1)\<rparr>, m2 :: 'e reload_log)"
    using reload_limiter_eq [OF assms(2)] by blast
  obtain ln and err :: "'e rebind_error option" where rb: "Rebind (sv_Bind (c_Server cfg)) listen_err (pr_listener p) = (ln, err)" by fastforce
  show ?thesis
    using p1(1) p2 rb
    by (simp add: applyReload_def Let_def reload_level_def reload_interval_def reload_bind_def SetLimiter_def p1(2))
qed

text \<open>
  C32: the sub-steps of a reload are independent. A reload of a configuration that loads, whose
  limiter can be made, always installs this limiter and the log level, passes a positive dump
  interval to the dumper (if there is one), and rebinds to an address that is given and differs
  from the current one, also when its access list does not build (the previous list stays) and
  when the address cannot be bound (the listener stays); it touches neither the store, the
  statistics, the slots in use nor the settings that need a restart. A configuration that does
  not load changes nothing.
\<close>

theorem reload_steps_independent:
  assumes "buildACL (c_ACL cfg) = Some acl" and "limiter_builds (c_RateLimit cfg)"
  shows "applyReload (Inl e) listen_err p = Some (p, [ReloadParseFailed e]) \<and>
    (\<exists>p' log. applyReload (Inr cfg) listen_err p = Some (p', log) \<and>
      s_acl (pr_server p') = (case acl of Inr t \<Rightarrow> t | Inl _ \<Rightarrow> s_acl (pr_server p)) \<and>
      s_limiter (pr_server p') = limiter_of (c_RateLimit cfg) \<and>
      pr_logger p' = setLevelVar (lc_Level (c_Log cfg)) (pr_logger p) \<and>
      pr_dumper p' = (if 0 < st_DumpInterval (c_Stats cfg) then map_option (SetInterval (st_DumpInterval (c_Stats cfg))) (pr_dumper p)
        else pr_dumper p) \<and>
      pr_listener p' = (if sv_Bind (c_Server cfg) \<noteq> [] \<and> sv_Bind (c_Server cfg) \<noteq> BindAddr (pr_listener p)
        then fst (Rebind (sv_Bind (c_Server cfg)) listen_err (pr_listener p)) else pr_listener p) \<and>
      (listen_err \<noteq> None \<longrightarrow> pr_listener p' = pr_listener p) \<and>
      s_store (pr_server p') = s_store (pr_server p) \<and> s_stats (pr_server p') = s_stats (pr_server p) \<and>
      s_sem (pr_server p') = s_sem (pr_server p) \<and> s_cfg (pr_server p') = s_cfg (pr_server p) \<and> pr_http p' = pr_http p)"
proof -
  have "fst (Rebind a (Some x) ln) = ln" for a x ln by (simp add: Rebind_def)
  then have "listen_err \<noteq> None \<Longrightarrow> fst (Rebind a listen_err ln) = ln" for a ln by auto
  then have stays: "listen_err \<noteq> None \<longrightarrow> (if c then fst (Rebind a listen_err ln) else ln) = ln" for a ln c by auto
  obtain p' log where p': "applyReload (Inr cfg) listen_err p = Some (p', log)"
    and facts: "s_acl (pr_server p') = (case acl of Inr t \<Rightarrow> t | Inl _ \<Rightarrow> s_acl (pr_server p))"
    "s_limiter (pr_server p') = limiter_of (c_RateLimit cfg)" "pr_logger p' = setLevelVar (lc_Level (c_Log cfg)) (pr_logger p)"
    "pr_dumper p' = (if 0 < st_DumpInterval (c_Stats cfg) then map_option (SetInterval (st_DumpInterval (c_Stats cfg))) (pr_dumper p)
      else pr_dumper p)"
    "pr_listener p' = (if sv_Bind (c_Server cfg) \<noteq> [] \<and> sv_Bind (c_Server cfg) \<noteq> BindAddr (pr_listener p)
      then fst (Rebind (sv_Bind (c_Server cfg)) listen_err (pr_listener p)) else pr_listener p)"
    "s_store (pr_server p') = s_store (pr_server p)" "s_stats (pr_server p') = s_stats (pr_server p)"
    "s_sem (pr_server p') = s_sem (pr_server p)" "s_cfg (pr_server p') = s_cfg (pr_server p)" "pr_http p' = pr_http p"
    using applyReload_cases [OF assms, of listen_err p] by blast
  have "listen_err \<noteq> None \<longrightarrow> pr_listener p' = pr_listener p" unfolding facts(5) by (rule stays)
  moreover have "applyReload (Inl e) listen_err p = Some (p, [ReloadParseFailed e])" by (simp add: applyReload_def)
  ultimately show ?thesis using p' facts by blast
qed

text \<open>A program without statistics that has not served a client.\<close>

definition quiet_program :: "int program" where
  "quiet_program =
     \<lparr>pr_logger = newLogger LevelInfo,
      pr_server = \<lparr>s_cfg = \<lparr>cfg_Bind = '':43'', cfg_ReadTimeout = 5 * Second, cfg_WriteTimeout = 30 * Second,
          cfg_MaxConcurrent = 1024, cfg_MaxQueryBytes = 512\<rparr>,
        s_store = NewManager, s_stats = None, s_acl = bert_New ActionAllow, s_limiter = None, s_sem = 0, s_log = []\<rparr>,
      pr_listener = listener_New '':43'', pr_dumper = None, pr_http = None\<rparr>"

theorem reload_steps_independent_witness:
  "\<exists>p' log. applyReload (Inr bad_acl_config) (None :: string option) (quiet_program\<lparr>pr_dumper := Some idle_dumper\<rparr>) = Some (p', log) \<and>
     s_acl (pr_server p') = s_acl (pr_server quiet_program) \<and> BindAddr (pr_listener p') = ''0.0.0.0:43'' \<and>
     pr_dumper p' = Some (SetInterval (st_DumpInterval (c_Stats bad_acl_config)) idle_dumper)"
proof -
  let ?p = "quiet_program\<lparr>pr_dumper := Some idle_dumper\<rparr>"
  have "parse_cidr ''nonsense'' = None" by code_simp
  then obtain e where e: "buildACL (c_ACL bad_acl_config) = Some (Inl e)"
    using buildACL_bad [of "''nonsense''" "c_ACL bad_acl_config"] by (auto simp: bad_acl_config_def)
  have l: "limiter_builds (c_RateLimit bad_acl_config)" by code_simp
  have c: "sv_Bind (c_Server bad_acl_config) = ''0.0.0.0:43''" "0 < st_DumpInterval (c_Stats bad_acl_config)"
    by (simp_all add: bad_acl_config_def sample_config_def defaults_defs)
  have p: "pr_dumper ?p = Some idle_dumper" "pr_listener ?p = listener_New '':43''" "s_acl (pr_server ?p) = s_acl (pr_server quiet_program)"
    by (simp_all add: quiet_program_def)
  have b: "BindAddr (listener_New '':43'') = '':43''"
    "BindAddr (fst (Rebind ''0.0.0.0:43'' (None :: string option) (listener_New '':43''))) = ''0.0.0.0:43''"
    by (simp_all add: BindAddr_def Rebind_def listener_New_def listen_def close_sock_def Let_def)
  obtain p' log where "applyReload (Inr bad_acl_config) (None :: string option) ?p = Some (p', log)"
    "s_acl (pr_server p') = s_acl (pr_server ?p)" "pr_dumper p' = Some (SetInterval (st_DumpInterval (c_Stats bad_acl_config)) idle_dumper)"
    "pr_listener p' = fst (Rebind ''0.0.0.0:43'' (None :: string option) (listener_New '':43''))"
    using reload_steps_independent [OF e l, of "ReadConfig ''x''" "None :: string option" ?p] c p b(1) by auto
  with p(3) b(2) show ?thesis by auto
qed

lemma daemon_start_Runs:
  assumes "(daemon_start u penv pid env t0 cfg fs :: fs \<times> 'l start) = (fs2, Runs q)"
  shows "\<exists>tree. buildACL (c_ACL cfg) = Some (Inr tree) \<and> limiter_builds (c_RateLimit cfg) \<and> s_acl (pr_server q) = tree \<and>
    s_limiter (pr_server q) = limiter_of (c_RateLimit cfg) \<and>
    log_level (pr_logger q) = log_level (setLevelVar (lc_Level (c_Log cfg)) (newLogger LevelInfo)) \<and>
    BindAddr (pr_listener q) = sv_Bind (c_Server cfg) \<and>
    map_option d_Interval (pr_dumper q) = (if st_Enabled (c_Stats cfg) then Some (st_DumpInterval (c_Stats cfg)) else None)"
proof -
  obtain fs1 perr where w: "writePidFile penv pid (sv_PidFile (c_Server cfg)) fs = (fs1, perr)" by fastforce
  obtain tree where tree: "buildACL (c_ACL cfg) = Some (Inr tree)"
    using assms w by (auto simp: daemon_start_def Let_def split: option.splits sum.splits)
  obtain fs3 m res where r: "refresh u env cfg fs1 NewManager = (fs3, m, res)" by (metis prod_cases3)
  obtain ok where "res = Inr ok"
    using assms w tree r by (cases res) (auto simp: daemon_start_def Let_def split: option.splits)
  with r have r': "refresh u env cfg fs1 NewManager = (fs3, m, Inr ok)" by simp
  from daemon_start_cases [OF w tree r', of t0, where 'l = 'l] assms tree show ?thesis
    by (auto split: if_splits)
qed

text \<open>
  C31: a reload does what a restart would do. When a daemon can be started with the new
  configuration, whose address is given and can be bound and whose dump interval is positive,
  and the program that reloads it has a dumper and is not shutting down, then this program has
  after the reload the access list, the limiter, the log level and the address of the daemon
  started with this configuration, and its dumper is asked for the interval that such a daemon
  uses.
\<close>

theorem reload_matches_restart:
  assumes "(daemon_start u penv pid env t0 cfg fs :: fs \<times> 'l start) = (fs2, Runs q)"
    and "\<not> l_closed (pr_listener p)" and "sv_Bind (c_Server cfg) \<noteq> []" and "0 < st_DumpInterval (c_Stats cfg)"
    and "pr_dumper p = Some d"
  shows "\<exists>p' log. applyReload (Inr cfg) (None :: 'e option) (p :: 'l program) = Some (p', log) \<and>
    s_acl (pr_server p') = s_acl (pr_server q) \<and> s_limiter (pr_server p') = s_limiter (pr_server q) \<and>
    log_level (pr_logger p') = log_level (pr_logger q) \<and> BindAddr (pr_listener p') = BindAddr (pr_listener q) \<and>
    (\<forall>d'. pr_dumper q = Some d' \<longrightarrow> map_option d_curIntvl (pr_dumper p') = Some (d_Interval d'))"
proof -
  obtain tree where q: "buildACL (c_ACL cfg) = Some (Inr tree)" "limiter_builds (c_RateLimit cfg)" "s_acl (pr_server q) = tree"
    "s_limiter (pr_server q) = limiter_of (c_RateLimit cfg)"
    "log_level (pr_logger q) = log_level (setLevelVar (lc_Level (c_Log cfg)) (newLogger LevelInfo))"
    "BindAddr (pr_listener q) = sv_Bind (c_Server cfg)"
    "map_option d_Interval (pr_dumper q) = (if st_Enabled (c_Stats cfg) then Some (st_DumpInterval (c_Stats cfg)) else None)"
    using daemon_start_Runs [OF assms(1)] by blast
  let ?ln = "if sv_Bind (c_Server cfg) \<noteq> [] \<and> sv_Bind (c_Server cfg) \<noteq> BindAddr (pr_listener p)
      then fst (Rebind (sv_Bind (c_Server cfg)) (None :: 'e option) (pr_listener p)) else pr_listener p"
  have bind: "BindAddr ?ln = sv_Bind (c_Server cfg)"
    using assms(2,3) by (auto simp: Rebind_def BindAddr_def listen_def close_sock_def Let_def split: option.split)
  have level: "log_level (setLevelVar l lg) = log_level (setLevelVar l lg')" for l lg lg'
    by (simp add: setLevelVar_def)
  have intvl: "d_curIntvl (SetInterval i d) = i" if "0 < i" for i
    using that by (simp add: SetInterval_def Let_def)
  obtain p' log where p': "applyReload (Inr cfg) (None :: 'e option) p = Some (p', log)" "s_acl (pr_server p') = tree"
    "s_limiter (pr_server p') = limiter_of (c_RateLimit cfg)" "pr_logger p' = setLevelVar (lc_Level (c_Log cfg)) (pr_logger p)"
    "pr_dumper p' = Some (SetInterval (st_DumpInterval (c_Stats cfg)) d)" "pr_listener p' = ?ln"
    using applyReload_cases [OF q(1,2), of "None :: 'e option" p] assms(4,5) by auto
  show ?thesis
    using p' q(3-7) bind level [of _ "pr_logger p" "newLogger LevelInfo"] intvl [OF assms(4)]
    by (intro exI [of _ p'] exI [of _ log]) (auto split: if_splits)
qed

theorem reload_matches_restart_witness:
  "\<exists>fs' q p' log. (daemon_start ascii_unicode quiet_env 4711 round_one 0 sample_config Mapping.empty :: fs \<times> int start) = (fs', Runs q) \<and>
     applyReload (Inr sample_config) (None :: string option)
       (q\<lparr>pr_listener := listener_New '':43'', pr_dumper := Some idle_dumper, pr_logger := newLogger 8\<rparr>) = Some (p', log) \<and>
     log_level (pr_logger p') = log_level (pr_logger q)"
proof -
  obtain fs' q where start: "(daemon_start ascii_unicode quiet_env 4711 round_one 0 sample_config Mapping.empty :: fs \<times> int start) = (fs', Runs q)"
    using sample_starts by blast
  let ?p = "q\<lparr>pr_listener := listener_New '':43'', pr_dumper := Some idle_dumper, pr_logger := newLogger 8\<rparr>"
  have "\<not> l_closed (pr_listener ?p)" "pr_dumper ?p = Some idle_dumper" by (simp_all add: listener_New_def)
  moreover have "sv_Bind (c_Server sample_config) \<noteq> []" "0 < st_DumpInterval (c_Stats sample_config)"
    by (simp_all add: sample_config_def defaults_defs)
  ultimately show ?thesis
    using reload_matches_restart [OF start, of ?p idle_dumper, where 'e = string] start by blast
qed

end
