(* ===== verification/Stats_Cli.thy ===== *)
theory Stats_Cli
  imports Config "HOL-Library.List_Lexorder" "HOL-Library.Char_ord"
begin

section \<open>The statistics client (stats_cli.go)\<close>

text \<open>
  The command \<open>whoisd --stats\<close>: it fetches the snapshot over HTTP and prints it. Strings are
  byte strings, so the few non-ASCII characters of the layout are written as their UTF-8
  bytes. The HTTP client, the JSON decoder, the parsing and formatting of time stamps, and the
  formatting of a floating-point number with two decimals and the unstable \<open>sort.Slice\<close> are parameters; floating-point
  numbers are exact rationals. Integers keep their value where the code cannot overflow;
  where it can, in the negation of \<open>fmtInt\<close> and the product of \<open>fmtDurationMS\<close>, they wrap. An index out of range is \<open>None\<close>.
\<close>

record cliConn =
  cc_ID :: "64 word"
  cc_Src :: string
  cc_StartedAt :: string
  cc_DurationMS :: int
  cc_State :: string
  cc_Query :: string
  cc_BytesIn :: int
  cc_BytesOut :: int
  cc_Result :: int
  cc_Error :: string
  cc_RateKBps :: rat

record cliCounters =
  cl_QueriesTotal :: "64 word"
  cl_QueriesHit :: "64 word"
  cl_QueriesMiss :: "64 word"
  cl_QueriesEmpty :: "64 word"
  cl_DeniesACL :: "64 word"
  cl_DeniesRateLimit :: "64 word"
  cl_DeniesBusy :: "64 word"
  cl_ErrorsRead :: "64 word"
  cl_ErrorsWrite :: "64 word"
  cl_BytesIn :: int
  cl_BytesOut :: int
  cl_CurrentLive :: int

record cliSnapshot =
  cs_Generated :: string
  cs_StartedAt :: string
  cs_UptimeSec :: rat
  cs_Live :: "cliConn list"
  cs_Counters :: cliCounters
  cs_RecentQPS :: rat
  cs_DbaseLoaded :: string
  cs_ClassCounts :: "(string, int) gomap"
  cs_SourceCounts :: "(string, int) gomap"

record fmt_env =
  fmt2 :: "rat \<Rightarrow> string"
  parse_ts :: "string \<Rightarrow> int option"
  fmt_full :: "int \<Rightarrow> string"
  fmt_short :: "int \<Rightarrow> string"
  cli_now :: int
  sort_slice :: "(cliConn \<Rightarrow> cliConn \<Rightarrow> bool) \<Rightarrow> cliConn list \<Rightarrow> cliConn list"

subsection \<open>Numbers\<close>

text \<open>The negation of a 64-bit integer, which leaves the least one as it is.\<close>

definition neg64 :: "int \<Rightarrow> int" where
  "neg64 n = (if n = - (2 ^ 63) then n else - n)"

text \<open>The loop that writes groups of three digits; the length of its argument is a multiple of three.\<close>

fun groups3 :: "string \<Rightarrow> string" where
  "groups3 (a # b # c # d # ds) = [a, b, c, CHR '',''] @ groups3 (d # ds)"
| "groups3 ds = ds"

definition fmtInt :: "int \<Rightarrow> string" where
  "fmtInt n0 =
     (let neg = n0 < 0;
          n = (if neg then neg64 n0 else n0);
          s = Itoa n
      in if length s \<le> 3 then (if neg then CHR ''-'' # s else s)
         else let pre = length s mod 3;
                  b = (if pre > 0 then take pre s @ (if length s > pre then [CHR '','' ] else []) else []) @ groups3 (drop pre s)
              in if neg then CHR ''-'' # b else b)"

function fb_loop :: "int \<Rightarrow> int \<Rightarrow> nat \<Rightarrow> int \<times> nat" where
  "fb_loop v d e = (if v \<ge> 1024 then fb_loop (v sdiv 1024) (d * 1024) (e + 1) else (d, e))"
  by pat_completeness auto
termination
proof (relation "measure (\<lambda>(v, d, e). nat v)", goal_cases)
  case (2 v d e)
  then have "v sdiv 1024 = v div 1024" by (simp add: signed_divide_int_def sgn_if abs_if)
  with 2 show ?case by simp
qed simp

declare fb_loop.simps [simp del]

definition fmtBytes :: "fmt_env \<Rightarrow> int \<Rightarrow> string option" where
  "fmtBytes env n =
     (if n < 1024 then Some (Itoa n @ '' B'')
      else let (d, e) = fb_loop (n sdiv 1024) 1024 0
           in if e < length ''KMGTPE''
              then Some (fmt2 env (of_int n / of_int d) @ '' '' @ [''KMGTPE'' ! e] @ ''iB'') else None)"

definition fmtDuration :: "fmt_env \<Rightarrow> int \<Rightarrow> string" where
  "fmtDuration env d =
     (if d < Second then Itoa (d sdiv Millisecond) @ ''ms''
      else if d < Minute then fmt2 env (of_int d / 1000000000) @ ''s''
      else if d < Hour then Itoa (d div Minute) @ ''m '' @ Itoa (d div Second mod 60) @ ''s''
      else if d < 24 * Hour then Itoa (d div Hour) @ ''h '' @ Itoa (d div Minute mod 60) @ ''m''
      else Itoa (d div (24 * Hour)) @ ''d '' @ Itoa (d div Hour mod 24) @ ''h'')"

definition fmtSeconds :: "fmt_env \<Rightarrow> rat \<Rightarrow> string" where
  "fmtSeconds env s =
     (let x = s * 1000000000 in fmtDuration env (if x < 0 then - \<lfloor>- x\<rfloor> else \<lfloor>x\<rfloor>))"

text \<open>The value of a 64-bit signed computation.\<close>

definition wrap64 :: "int \<Rightarrow> int" where
  "wrap64 n = (n + 2 ^ 63) mod 2 ^ 64 - 2 ^ 63"

definition fmtDurationMS :: "fmt_env \<Rightarrow> int \<Rightarrow> string" where
  "fmtDurationMS env ms = fmtDuration env (wrap64 (ms * Millisecond))"

text \<open>The dash that stands for a missing time, and the ellipsis, in UTF-8.\<close>

definition em_dash :: string where
  "em_dash = [CHR 0xE2, CHR 0x80, CHR 0x94]"

definition ellipsis :: string where
  "ellipsis = [CHR 0xE2, CHR 0x80, CHR 0xA6]"

definition fmtTime :: "fmt_env \<Rightarrow> string \<Rightarrow> string" where
  "fmtTime env ts = (if ts = [] then em_dash else case parse_ts env ts of None \<Rightarrow> ts | Some t \<Rightarrow> fmt_full env t)"

definition fmtTimeShort :: "fmt_env \<Rightarrow> string \<Rightarrow> string" where
  "fmtTimeShort env ts = (if ts = [] then em_dash else case parse_ts env ts of None \<Rightarrow> ts | Some t \<Rightarrow> fmt_short env t)"

text \<open>\<open>Duration.Round\<close> to a second, away from zero at a half.\<close>

definition round_second :: "int \<Rightarrow> int" where
  "round_second d =
     (let r = d smod Second in
      if d < 0 then (if - r + - r < Second then d - r else d - r - Second)
      else if r + r < Second then d - r else d + Second - r)"

definition fmtSince :: "fmt_env \<Rightarrow> string \<Rightarrow> string" where
  "fmtSince env ts =
     (if ts = [] then em_dash
      else case parse_ts env ts of None \<Rightarrow> ts | Some t \<Rightarrow> fmtDuration env (round_second (cli_now env - t)))"

definition truncate_str :: "string \<Rightarrow> int \<Rightarrow> string" where
  "truncate_str s maxlen =
     (if int (length s) \<le> maxlen then s
      else if maxlen < 1 then []
      else take (nat (maxlen - 1)) s @ ellipsis)"

definition sortedKeys :: "(string, int) gomap \<Rightarrow> string list" where
  "sortedKeys m = Mapping.ordered_keys m"

subsection \<open>Columns\<close>

record column =
  col_Width :: int
  col_Lines :: "string list"

text \<open>The width of the first rune of a string and the number of runes, as \<open>fmt\<close> counts them to pad.\<close>

definition cont :: "nat \<Rightarrow> nat \<Rightarrow> string \<Rightarrow> nat \<Rightarrow> bool" where
  "cont lo hi s k \<longleftrightarrow> k < length s \<and> lo \<le> byte (s ! k) \<and> byte (s ! k) \<le> hi"

definition rune_width :: "string \<Rightarrow> nat" where
  "rune_width s =
     (let b = byte (hd s) in
      if 0xC2 \<le> b \<and> b \<le> 0xDF \<and> cont 0x80 0xBF s 1 then 2
      else if 0xE0 \<le> b \<and> b \<le> 0xEF \<and> cont (if b = 0xE0 then 0xA0 else 0x80) (if b = 0xED then 0x9F else 0xBF) s 1 \<and> cont 0x80 0xBF s 2 then 3
      else if 0xF0 \<le> b \<and> b \<le> 0xF4 \<and> cont (if b = 0xF0 then 0x90 else 0x80) (if b = 0xF4 then 0x8F else 0xBF) s 1 \<and>
        cont 0x80 0xBF s 2 \<and> cont 0x80 0xBF s 3 then 4
      else 1)"

function rune_count :: "string \<Rightarrow> nat" where
  "rune_count s = (if s = [] then 0 else 1 + rune_count (drop (rune_width s) s))"
  by pat_completeness auto
termination
proof (relation "measure length", goal_cases)
  case (2 s)
  then show ?case by (cases s) (simp_all add: rune_width_def Let_def)
qed simp

declare rune_count.simps [simp del]

text \<open>\<open>%-ns\<close>: padding on the right.\<close>

definition pad_right :: "nat \<Rightarrow> string \<Rightarrow> string" where
  "pad_right n s = s @ replicate (n - rune_count s) (CHR '' '')"

definition fit :: "int \<Rightarrow> string \<Rightarrow> string" where
  "fit width line =
     (if int (length line) > width then take (nat width) line
      else if int (length line) < width then line @ replicate (nat (width - int (length line))) (CHR '' '')
      else line)"

definition render_row :: "column list \<Rightarrow> nat \<Rightarrow> string" where
  "render_row cols i =
     Join (map (\<lambda>c. fit (col_Width c) (if i < length (col_Lines c) then col_Lines c ! i else [])) cols) ''  ''"

definition max_rows :: "column list \<Rightarrow> nat" where
  "max_rows cols = fold (\<lambda>c m. if length (col_Lines c) > m then length (col_Lines c) else m) cols 0"

definition renderColumns :: "column list \<Rightarrow> string list" where
  "renderColumns cols = map (render_row cols) [0..<max_rows cols]"

definition countersColumn :: "fmt_env \<Rightarrow> cliCounters \<Rightarrow> string list option" where
  "countersColumn env c =
     (case (fmtBytes env (cl_BytesIn c), fmtBytes env (cl_BytesOut c)) of
        (Some bin, Some bout) \<Rightarrow>
          (let n = (\<lambda>w :: 64 word. fmtInt (sint w));
               denied = cl_DeniesACL c + cl_DeniesRateLimit c + cl_DeniesBusy c;
               errs = cl_ErrorsRead c + cl_ErrorsWrite c
           in Some ([''Counters'',
                ''  Queries total: '' @ n (cl_QueriesTotal c),
                ''    hit:         '' @ n (cl_QueriesHit c),
                ''    miss:        '' @ n (cl_QueriesMiss c)] @
                (if cl_QueriesEmpty c > 0 then [''    empty:       '' @ n (cl_QueriesEmpty c)] else []) @
                [''  Bytes in:      '' @ bin,
                 ''  Bytes out:     '' @ bout,
                 ''  Denied:        '' @ n denied] @
                (if denied > 0 then
                   [''    acl:         '' @ n (cl_DeniesACL c),
                    ''    rate-limit:  '' @ n (cl_DeniesRateLimit c),
                    ''    busy:        '' @ n (cl_DeniesBusy c)] else []) @
                [''  Errors:        '' @ n errs] @
                (if errs > 0 then
                   [''    read:        '' @ n (cl_ErrorsRead c),
                    ''    write:       '' @ n (cl_ErrorsWrite c)] else []) @
                [''  Live conns:    '' @ Itoa (cl_CurrentLive c)]))
      | _ \<Rightarrow> None)"

definition sourcesColumn :: "(string, int) gomap \<Rightarrow> string list" where
  "sourcesColumn cnts =
     (if Mapping.size cnts = 0 then [''Per-source object counts'', ''  (none loaded)'']
      else ''Per-source object counts'' #
        map (\<lambda>k. ''  '' @ pad_right 10 k @ '' '' @ fmtInt (gmap_int cnts k)) (sortedKeys cnts))"

definition classesColumn :: "(string, int) gomap \<Rightarrow> string list" where
  "classesColumn cnts =
     (if Mapping.size cnts = 0 then [''Object classes'', ''  (none indexed)'']
      else ''Object classes'' #
        map (\<lambda>k. ''  '' @ pad_right 14 k @ '' '' @ fmtInt (gmap_int cnts k)) (sortedKeys cnts))"

subsection \<open>The report\<close>

definition serverColumn :: "fmt_env \<Rightarrow> cliSnapshot \<Rightarrow> string list" where
  "serverColumn env s =
     ['''', ''Server'', ''  Started:       '' @ fmtTimeShort env (cs_StartedAt s), ''  Uptime:        '' @ fmtSeconds env (cs_UptimeSec s)] @
     (if cs_DbaseLoaded s \<noteq> [] then
        [''  DB last load:  '' @ fmtTimeShort env (cs_DbaseLoaded s) @ '' ('' @ fmtSince env (cs_DbaseLoaded s) @ '' ago)''] else []) @
     [''  Recent QPS:    '' @ fmt2 env (cs_RecentQPS s)]"

text \<open>
  The rows of the active connections, the longest first; the code leaves open the order of
  connections of the same duration, which the model takes in the order of the snapshot.
\<close>

definition conn_row :: "fmt_env \<Rightarrow> cliConn \<Rightarrow> string option" where
  "conn_row env c =
     (case fmtBytes env (cc_BytesOut c) of
        None \<Rightarrow> None
      | Some out \<Rightarrow>
          Some (''  '' @ Join [pad_right 6 (Itoa (uint (cc_ID c))), pad_right 18 (truncate_str (cc_Src c) 18),
            pad_right 22 (truncate_str (cc_Query c) 22), pad_right 11 (cc_State c),
            pad_right 8 (fmtDurationMS env (cc_DurationMS c)), pad_right 10 out] ''  ''))"

text \<open>The comparison that the report passes to \<open>sort.Slice\<close>.\<close>

definition live_less :: "cliConn \<Rightarrow> cliConn \<Rightarrow> bool" where
  "live_less a b \<longleftrightarrow> cc_DurationMS a > cc_DurationMS b"

definition live_rows :: "fmt_env \<Rightarrow> cliConn list \<Rightarrow> string list option" where
  "live_rows env live =
     (let rows = map (conn_row env) (sort_slice env live_less live)
      in if None \<in> set rows then None else Some (map the rows))"

definition printStats :: "fmt_env \<Rightarrow> string \<Rightarrow> string \<Rightarrow> cliSnapshot \<Rightarrow> string list option" where
  "printStats env version endpoint s =
     (let title = ''One Ring '' @ em_dash @ '' whoisd  '' @ version @ '' '' @ [CHR 0xC2, CHR 0xB7] @ '' live status'' in
      case (countersColumn env (cs_Counters s), live_rows env (cs_Live s)) of
        (Some left, Some rows) \<Rightarrow>
          Some ([title, replicate (length title) (CHR ''=''),
             ''Endpoint:        '' @ endpoint,
             ''Last update:     '' @ fmtTime env (cs_Generated s) @ '' ('' @ fmtSince env (cs_Generated s) @ '' ago)'',
             ''''] @
            renderColumns [\<lparr>col_Width = 48, col_Lines = left @ serverColumn env s\<rparr>,
              \<lparr>col_Width = 26, col_Lines = sourcesColumn (cs_SourceCounts s)\<rparr>,
              \<lparr>col_Width = 28, col_Lines = classesColumn (cs_ClassCounts s)\<rparr>] @
            ['''', ''Active connections ('' @ Itoa (int (length (cs_Live s))) @ '')''] @
            (if cs_Live s = [] then [''  (none)'']
             else [''  '' @ Join [pad_right 6 ''ID'', pad_right 18 ''Source'', pad_right 22 ''Query'', pad_right 11 ''State'',
                     pad_right 8 ''Dur'', pad_right 10 ''Out''] ''  '',
                   ''  '' @ replicate 82 (CHR ''-'')] @ rows))
      | _ \<Rightarrow> None)"

definition splitHostPort :: "string \<Rightarrow> string \<times> string" where
  "splitHostPort s = (case cut_last_byte (CHR '':'') s of None \<Rightarrow> ([], s) | Some (h, p) \<Rightarrow> (h, p))"

datatype 'e cli_error =
  StatsDisabled | NoHttpBind | CliGet string 'e | CliStatus string nat | CliRead 'e | CliJSON 'e | CliPanic

definition stats_url :: "string \<Rightarrow> string" where
  "stats_url bind =
     (let (host, port) = splitHostPort bind;
          host' = (if host = ''0.0.0.0'' \<or> host = ''::'' \<or> host = [] then ''127.0.0.1'' else host)
      in ''http://'' @ host' @ '':'' @ port @ ''/stats.json'')"

definition runStatsCLI ::
    "fmt_env \<Rightarrow> string \<Rightarrow> (string \<Rightarrow> 'e + nat \<times> ('e + string)) \<Rightarrow> (string \<Rightarrow> 'e + cliSnapshot) \<Rightarrow> Config \<Rightarrow> 'e cli_error + string list" where
  "runStatsCLI env version http_get unmarshal cfg =
     (if \<not> st_Enabled (c_Stats cfg) then Inl StatsDisabled
      else if st_HTTPBind (c_Stats cfg) = [] then Inl NoHttpBind
      else let url = stats_url (st_HTTPBind (c_Stats cfg)) in
        case http_get url of
          Inl e \<Rightarrow> Inl (CliGet url e)
        | Inr (status, rbody) \<Rightarrow>
            if status \<noteq> 200 then Inl (CliStatus url status)
            else (case rbody of
                    Inl e \<Rightarrow> Inl (CliRead e)
                  | Inr data \<Rightarrow>
                      (case unmarshal data of
                         Inl e \<Rightarrow> Inl (CliJSON e)
                       | Inr snap \<Rightarrow>
                           (case printStats env version url snap of None \<Rightarrow> Inl CliPanic | Some out \<Rightarrow> Inr out))))"

end
