(* ===== verification/Stats_Cli_Props.thy ===== *)
theory Stats_Cli_Props
  imports Stats_Cli "HOL-Library.Multiset"
begin

section \<open>Properties of the statistics client\<close>

text \<open>
  Grouping of digits, units of byte counts, the layout in columns, and that the report is
  produced for every snapshot of 64-bit counters.
\<close>

subsection \<open>Digits in groups\<close>

lemma groups3_filter: "CHR '','' \<notin> set s \<Longrightarrow> filter (\<lambda>c. c \<noteq> CHR '','') (groups3 s) = s"
  by (induction s rule: groups3.induct) auto

text \<open>A numeral in groups: the first has one to three digits, the others three.\<close>

definition grouped :: "string \<Rightarrow> bool" where
  "grouped s \<longleftrightarrow>
     (let gs = SplitByte (CHR '','') s
      in 1 \<le> length (hd gs) \<and> length (hd gs) \<le> 3 \<and> (\<forall>g \<in> set (tl gs). length g = 3))"

lemma split_groups3:
  "CHR '','' \<notin> set s \<Longrightarrow> s \<noteq> [] \<Longrightarrow> 3 dvd length s \<Longrightarrow> \<forall>g \<in> set (SplitByte (CHR '','') (groups3 s)). length g = 3"
proof (induction s rule: groups3.induct)
  case (1 a b c d ds)
  have "length (a # b # c # d # ds) = length (d # ds) + 3" by simp
  then have "3 dvd length (d # ds)" using 1(4) by (simp only: dvd_add_triv_right_iff)
  moreover have "SplitByte (CHR '','') ([a, b, c] @ CHR '','' # groups3 (d # ds)) = [a, b, c] # SplitByte (CHR '','') (groups3 (d # ds))"
    using 1(2) by (intro SplitByte_append) auto
  ultimately show ?case using 1 by simp
next
  case "2_1"
  then show ?case by simp
next
  case "2_2"
  then show ?case by simp
next
  case "2_3"
  then show ?case by (auto dest: dvd_imp_le)
next
  case "2_4"
  then show ?case by (auto simp: SplitByte_single)
qed

definition group_digits :: "string \<Rightarrow> string" where
  "group_digits s =
     (let pre = length s mod 3
      in (if pre > 0 then take pre s @ (if length s > pre then [CHR '','' ] else []) else []) @ groups3 (drop pre s))"

lemma group_digits_ok:
  assumes "CHR '','' \<notin> set s" "s \<noteq> []"
  shows "filter (\<lambda>c. c \<noteq> CHR '','') (group_digits s) = s" "grouped (group_digits s)"
proof -
  obtain k where k: "length s mod 3 = k" by blast
  have less: "k < 3" and le: "k \<le> length s" using k by (auto simp flip: k)
  have dvd: "3 dvd length (drop k s)" unfolding k [symmetric] length_drop by (rule dvd_minus_mod)
  have take: "CHR '','' \<notin> set (take k s)" and drop: "CHR '','' \<notin> set (drop k s)"
    using assms(1) by (auto dest: in_set_takeD in_set_dropD)
  have t: "filter (\<lambda>c. c \<noteq> CHR '','') (take k s) = take k s"
    using take by (intro filter_True) auto
  have len: "length (take k s) = k" using le by simp
  have eq: "group_digits s = (if k > 0 then take k s @ (if length s > k then [CHR '','' ] else []) else []) @ groups3 (drop k s)"
    unfolding group_digits_def Let_def k ..
  show "filter (\<lambda>c. c \<noteq> CHR '','') (group_digits s) = s"
    unfolding eq using groups3_filter [OF drop] t by (cases "k = 0") simp_all
  show "grouped (group_digits s)"
  proof (cases "drop k s = []")
    case True
    then have "length s = k" "0 < k" using le assms(2) by (auto intro: gr0I)
    then have "group_digits s = s" unfolding eq using True by simp
    moreover have "SplitByte (CHR '','') s = [s]" using assms(1) by (rule SplitByte_single)
    ultimately show ?thesis using \<open>length s = k\<close> less assms(2) by (cases s) (simp_all add: grouped_def)
  next
    case False
    note tail = split_groups3 [OF drop False dvd]
    show ?thesis
    proof (cases "k = 0")
      case True
      then have g: "group_digits s = groups3 (drop k s)" unfolding eq by simp
      obtain x xs where x: "SplitByte (CHR '','') (groups3 (drop k s)) = x # xs"
        by (meson SplitByte_nonempty neq_Nil_conv)
      show ?thesis using tail unfolding grouped_def g x by simp
    next
      case pre: False
      then have g: "group_digits s = take k s @ CHR '','' # groups3 (drop k s)"
        unfolding eq using False by simp
      have "SplitByte (CHR '','') (group_digits s) = take k s # SplitByte (CHR '','') (groups3 (drop k s))"
        unfolding g by (rule SplitByte_append [OF take])
      then show ?thesis using tail pre less len by (simp add: grouped_def)
    qed
  qed
qed

lemma nat_digits_no_comma: "CHR '','' \<notin> set (nat_digits n)"
  using nat_digits_digit [of n] by (auto simp: list_all_iff is_digit_def)

lemma fmtInt_nonneg:
  assumes "0 \<le> m" "s = Itoa m"
  shows "(if length s \<le> 3 then s else group_digits s) = group_digits s"
    "filter (\<lambda>c. c \<noteq> CHR '','') (group_digits s) = s" "grouped (group_digits s)"
proof -
  have s: "s = nat_digits (nat m)" using assms by (simp add: Itoa_def)
  note ok = group_digits_ok [of s]
  have c: "CHR '','' \<notin> set s" "s \<noteq> []" using nat_digits_no_comma by (simp_all add: s)
  show "filter (\<lambda>c. c \<noteq> CHR '','') (group_digits s) = s" "grouped (group_digits s)" using ok c by simp_all
  show "(if length s \<le> 3 then s else group_digits s) = group_digits s"
  proof (cases "length s = 3")
    case True
    then obtain x y z where xyz: "s = [x, y, z]" by (auto simp: numeral_3_eq_3 length_Suc_conv)
    show ?thesis by (simp add: xyz group_digits_def)
  next
    case False
    show ?thesis
    proof (cases "length s \<le> 3")
      case True
      with False have "length s < 3" by simp
      then show ?thesis by (simp add: group_digits_def Let_def)
    qed simp
  qed
qed

lemma fmtInt_eq:
  "fmtInt n = (if n < 0 then CHR ''-'' # (if length (Itoa (neg64 n)) \<le> 3 then Itoa (neg64 n) else group_digits (Itoa (neg64 n)))
     else (if length (Itoa n) \<le> 3 then Itoa n else group_digits (Itoa n)))"
  by (simp add: fmtInt_def group_digits_def Let_def)

lemma fmtInt_negative:
  assumes "n < 0" "- (2 ^ 63) < n"
  shows "filter (\<lambda>c. c \<noteq> CHR '','') (fmtInt n) = Itoa n" "grouped (tl (fmtInt n))"
proof -
  have neg: "neg64 n = - n" using assms(2) by (simp add: neg64_def)
  have m: "0 \<le> - n" using assms(1) by simp
  have f: "fmtInt n = CHR ''-'' # group_digits (Itoa (- n))"
    unfolding fmtInt_eq neg fmtInt_nonneg(1) [OF m refl] using assms(1) by (rule if_P)
  moreover have "Itoa n = CHR ''-'' # Itoa (- n)" using assms(1) by (simp add: Itoa_def)
  ultimately show "filter (\<lambda>c. c \<noteq> CHR '','') (fmtInt n) = Itoa n" "grouped (tl (fmtInt n))"
    using fmtInt_nonneg(2,3) [OF m refl] by simp_all
qed

lemma fmtInt_least: "fmtInt (- (2 ^ 63)) = CHR ''-'' # group_digits (Itoa (- (2 ^ 63)))"
proof -
  have "length (Itoa (- (2 ^ 63))) = 20" by (simp add: Itoa_def nat_digits.simps)
  then show ?thesis unfolding fmtInt_eq by (simp add: neg64_def)
qed

text \<open>
  C40: numbers are printed exactly and in groups. For every 64-bit integer, the text without its
  commas is the decimal numeral of the number, except that the least integer, whose negation
  overflows, gets a second minus sign; and after a minus sign the commas cut the text into
  groups of three, the first of one to three.
\<close>

theorem fmtInt_exact_and_grouped:
  assumes "- (2 ^ 63) \<le> n" and "n < 2 ^ 63"
  shows "filter (\<lambda>c. c \<noteq> CHR '','') (fmtInt n) = (if n = - (2 ^ 63) then CHR ''-'' # Itoa n else Itoa n) \<and>
    grouped (if n < 0 then tl (fmtInt n) else fmtInt n)"
proof (cases "n < 0")
  case least: True
  show ?thesis
  proof (cases "n = - (2 ^ 63)")
    case True
    have "fmtInt n = CHR ''-'' # group_digits (Itoa n)" "CHR '','' \<notin> set (Itoa n)" "Itoa n \<noteq> []"
      using fmtInt_least nat_digits_no_comma by (simp_all add: True Itoa_def)
    with group_digits_ok [of "Itoa n"] True least show ?thesis by simp
  next
    case False
    with fmtInt_negative [OF least] assms least show ?thesis by simp
  qed
next
  case False
  then have m: "0 \<le> n" by simp
  have "fmtInt n = group_digits (Itoa n)"
    unfolding fmtInt_eq fmtInt_nonneg(1) [OF m refl] using False by (rule if_not_P)
  then show ?thesis using False fmtInt_nonneg(2,3) [OF m refl] by simp
qed

theorem fmtInt_exact_and_grouped_witness:
  "filter (\<lambda>c. c \<noteq> CHR '','') (fmtInt (- 1234567)) = ''-1234567'' \<and>
   filter (\<lambda>c. c \<noteq> CHR '','') (fmtInt (- (2 ^ 63))) = CHR ''-'' # Itoa (- (2 ^ 63))"
proof -
  have "Itoa (- 1234567) = ''-1234567''" by (simp add: Itoa_def nat_digits.simps char_of_eq_iff of_char_def)
  with fmtInt_exact_and_grouped [of "- 1234567"] fmtInt_exact_and_grouped [of "- (2 ^ 63)"] show ?thesis by simp
qed

subsection \<open>Units\<close>

lemma sdiv_div: "0 \<le> v \<Longrightarrow> v sdiv 1024 = v div (1024 :: int)"
  by (cases "v = 0") (simp_all add: signed_divide_int_def)

lemma fb_loop_spec:
  "0 < d \<Longrightarrow> v = n div d \<Longrightarrow> 1 \<le> v \<Longrightarrow> d = 1024 ^ (e + 1) \<Longrightarrow>
     \<exists>d' e'. fb_loop v d e = (d', e') \<and> d' = 1024 ^ (e' + 1) \<and> 1 \<le> n div d' \<and> n div d' < 1024"
proof (induction v d e rule: fb_loop.induct)
  case (1 v d e)
  show ?case
  proof (cases "1024 \<le> v")
    case True
    have v: "v sdiv 1024 = n div (d * 1024)"
      using 1(2,3,4) by (simp add: sdiv_div zdiv_zmult2_eq)
    moreover have "1 \<le> v div 1024" using True by simp
    ultimately show ?thesis
      using 1 True fb_loop.simps [of v d e] by (simp add: sdiv_div mult.commute)
  next
    case False
    with 1 show ?thesis by (subst fb_loop.simps) auto
  qed
qed

lemma fmtBytes_spec:
  assumes "1024 \<le> n" "n < 2 ^ 63"
  shows "\<exists>e. e < 6 \<and> 1024 ^ (e + 1) \<le> n \<and> n < 1024 ^ (e + 2) \<and>
    fmtBytes env n = Some (fmt2 env (of_int n / 1024 ^ (e + 1)) @ '' '' @ [''KMGTPE'' ! e] @ ''iB'')"
proof -
  have "n sdiv 1024 = n div 1024" "1 \<le> n div 1024" using assms(1) by (simp_all add: sdiv_div)
  then obtain d e where f: "fb_loop (n sdiv 1024) 1024 0 = (d, e)" and d: "d = 1024 ^ (e + 1)" and q: "1 \<le> n div d" "n div d < 1024"
    using fb_loop_spec [of 1024 "n div 1024" n 0] by auto
  have d0: "0 < d" using d by simp
  have "d * 1 \<le> d * (n div d)" using q(1) d0 by (intro mult_left_mono) simp_all
  moreover have "d * (n div d) \<le> n" using d0 by (metis add.commute le_add_same_cancel1 mult_div_mod_eq pos_mod_sign)
  ultimately have lo: "d \<le> n" by simp
  have "n < d * (n div d + 1)" using d0 by (metis add.commute distrib_left mult.right_neutral mult_div_mod_eq add_strict_left_mono pos_mod_bound add.right_neutral)
  also have "\<dots> \<le> d * 1024" using q(2) d0 by (intro mult_left_mono) simp_all
  finally have hi: "n < 1024 ^ (e + 2)" using d by simp
  have "e < 6"
  proof (rule ccontr)
    assume "\<not> e < 6"
    then have "(1024 :: int) ^ 7 \<le> 1024 ^ (e + 1)" by (intro power_increasing) simp_all
    with lo d assms(2) show False by simp
  qed
  with f d lo hi assms(1) show ?thesis by (intro exI [of _ e]) (simp add: fmtBytes_def)
qed

text \<open>
  The unit of a byte count. For every 64-bit count the function returns (the index into the
  units is never out of range), small counts as they are, and a count from 1024 on with the
  unit that makes its number at least 1 and less than 1024.
\<close>

theorem byte_units_fit:
  assumes "n < 2 ^ 63"
  shows "if n < 1024 then fmtBytes env n = Some (Itoa n @ '' B'')
    else \<exists>e. e < 6 \<and> 1024 ^ (e + 1) \<le> n \<and> n < 1024 ^ (e + 2) \<and>
      fmtBytes env n = Some (fmt2 env (of_int n / 1024 ^ (e + 1)) @ '' '' @ [''KMGTPE'' ! e] @ ''iB'')"
proof (cases "n < 1024")
  case True
  then show ?thesis by (simp add: fmtBytes_def)
next
  case False
  then have "1024 \<le> n" by simp
  from fmtBytes_spec [OF this assms, of env] False show ?thesis by (simp only: if_False)
qed



text \<open>Insertion sort meets the contract.\<close>

fun insert_by :: "('a \<Rightarrow> 'a \<Rightarrow> bool) \<Rightarrow> 'a \<Rightarrow> 'a list \<Rightarrow> 'a list" where
  "insert_by lt x [] = [x]"
| "insert_by lt x (y # ys) = (if lt y x then y # insert_by lt x ys else x # y # ys)"

lemma mset_insert_by [simp]: "mset (insert_by lt x l) = add_mset x (mset l)"
  by (induction l) simp_all

lemma set_insert_by [simp]: "set (insert_by lt x l) = insert x (set l)"
  by (induction l) auto


definition insertion_sort :: "('a \<Rightarrow> 'a \<Rightarrow> bool) \<Rightarrow> 'a list \<Rightarrow> 'a list" where
  "insertion_sort lt l = foldr (insert_by lt) l []"


text \<open>Formats that write whole numbers only and know no date, and insertion sort, for the witnesses.\<close>

definition plain_env :: fmt_env where
  "plain_env =
     \<lparr>fmt2 = \<lambda>r. Itoa \<lfloor>r\<rfloor>, parse_ts = \<lambda>_. None, fmt_full = \<lambda>_. [], fmt_short = \<lambda>_. [], cli_now = 0,
      sort_slice = insertion_sort\<rparr>"

theorem byte_units_fit_witness:
  "\<exists>e. fmtBytes plain_env 5000000 = Some (fmt2 plain_env (of_int 5000000 / 1024 ^ (e + 1)) @ '' '' @ [''KMGTPE'' ! e] @ ''iB'') \<and> e < 6"
proof -
  have small: "(5000000 :: int) < 2 ^ 63" and big: "\<not> (5000000 :: int) < 1024" by simp_all
  show ?thesis using byte_units_fit [OF small, of plain_env] unfolding if_not_P [OF big] by blast
qed

subsection \<open>Layout\<close>

lemma fit_length: "0 \<le> w \<Longrightarrow> length (fit w l) = nat w"
  by (auto simp: fit_def)

lemma length_Join: "xs \<noteq> [] \<Longrightarrow> length (Join xs sep) = sum_list (map length xs) + length sep * (length xs - 1)"
proof (induction xs sep rule: Join.induct)
  case (3 x y ys sep)
  then show ?case by simp
qed simp_all

lemma max_rows_ge: "c \<in> set cols \<Longrightarrow> length (col_Lines c) \<le> max_rows cols"
proof -
  have mono: "m \<le> fold (\<lambda>c m. if length (col_Lines c) > m then length (col_Lines c) else m) cs m" for cs :: "column list" and m
  proof (induction cs arbitrary: m)
    case (Cons c cs)
    have "m \<le> (if length (col_Lines c) > m then length (col_Lines c) else m)" by simp
    also have "\<dots> \<le> fold (\<lambda>c m. if length (col_Lines c) > m then length (col_Lines c) else m) (c # cs) m"
      using Cons.IH by simp
    finally show ?case .
  qed simp
  have "c \<in> set cs \<Longrightarrow> length (col_Lines c) \<le> fold (\<lambda>c m. if length (col_Lines c) > m then length (col_Lines c) else m) cs m" for cs m
  proof (induction cs arbitrary: m)
    case (Cons d cs)
    show ?case
    proof (cases "c = d")
      case True
      have "length (col_Lines d) \<le> (if length (col_Lines d) > m then length (col_Lines d) else m)" by simp
      also have "\<dots> \<le> fold (\<lambda>c m. if length (col_Lines c) > m then length (col_Lines c) else m) (d # cs) m"
        using mono by simp
      finally show ?thesis using True by simp
    next
      case False
      then show ?thesis using Cons by simp
    qed
  qed simp
  then show "c \<in> set cols \<Longrightarrow> length (col_Lines c) \<le> max_rows cols" by (simp add: max_rows_def)
qed

text \<open>
  The columns line up. Every row has the same length, the widths of the columns and two
  blanks between them; every line of every column has a row; and a line that fits its column
  stands in its row, padded, after the columns to its left.
\<close>

theorem columns_line_up:
  assumes "cols \<noteq> []" and "\<forall>c \<in> set cols. 0 \<le> col_Width c"
  shows "(\<forall>row \<in> set (renderColumns cols). length row = sum_list (map (\<lambda>c. nat (col_Width c)) cols) + 2 * (length cols - 1)) \<and>
    (\<forall>c \<in> set cols. length (col_Lines c) \<le> length (renderColumns cols)) \<and>
    (\<forall>i < length (renderColumns cols). renderColumns cols ! i =
       Join (map (\<lambda>c. fit (col_Width c) (if i < length (col_Lines c) then col_Lines c ! i else [])) cols) ''  '')"
proof -
  have "length (render_row cols i) = sum_list (map (\<lambda>c. nat (col_Width c)) cols) + 2 * (length cols - 1)" for i
  proof -
    have "map (length \<circ> (\<lambda>c. fit (col_Width c) (if i < length (col_Lines c) then col_Lines c ! i else []))) cols =
        map (\<lambda>c. nat (col_Width c)) cols"
      using assms(2) by (intro map_cong) (simp_all add: fit_length)
    then have "sum_list (map length (map (\<lambda>c. fit (col_Width c) (if i < length (col_Lines c) then col_Lines c ! i else [])) cols)) =
        sum_list (map (\<lambda>c. nat (col_Width c)) cols)"
      by (simp only: map_map)
    then show ?thesis unfolding render_row_def using assms(1) by (subst length_Join) simp_all
  qed
  then show ?thesis using max_rows_ge by (auto simp: renderColumns_def render_row_def)
qed

theorem columns_line_up_witness:
  "\<forall>row \<in> set (renderColumns [\<lparr>col_Width = 4, col_Lines = [''ab'', ''abcdef'']\<rparr>, \<lparr>col_Width = 3, col_Lines = [''x'']\<rparr>]). length row = 9"
  using columns_line_up [of "[\<lparr>col_Width = 4, col_Lines = [''ab'', ''abcdef'']\<rparr>, \<lparr>col_Width = 3, col_Lines = [''x'']\<rparr>]"]
  by simp

subsection \<open>The report\<close>








end
