(* ===== verification/Rpsl_Scan.thy ===== *)
theory Rpsl_Scan
  imports Rpsl_Text
begin

section \<open>Scanning the text of an object\<close>

text \<open>
  \<open>Lookup\<close> is the first element of \<open>LookupAll\<close> on every text. On the text of a well-formed
  block \<open>LookupAll\<close> returns the folded values of the attribute in order, so where the
  names are written in lower case it agrees with what the parser stored eagerly.
\<close>

subsection \<open>The first match\<close>

lemma scan_out_commit: "prefix (scan_out st) (scan_out (scan_commit st))"
  by (simp add: scan_commit_def)

lemma scan_line_out: "prefix (scan_out st) (scan_out (fst (scan_line nm all line st)))"
  using scan_out_commit [of st]
  by (auto simp: scan_line_def Let_def split: option.splits)

lemma scan_line_all_goes_on: "\<not> snd (scan_line nm True line st)"
  by (auto simp: scan_line_def Let_def split: option.splits)

lemma scan_loop_prefix: "prefix (scan_out st) (scan_loop nm True raw st)"
proof (induction nm "True" raw st rule: scan_loop.induct)
  case (1 nm raw st)
  obtain line rest where l: "(case cut_byte nl raw of None \<Rightarrow> (raw, []) | Some (a, b) \<Rightarrow> (a, b)) = (line, rest)"
    by fastforce
  obtain st' stop where s: "scan_line nm True line st = (st', stop)" by fastforce
  then have "\<not> stop" "prefix (scan_out st) (scan_out st')"
    using scan_line_all_goes_on [of nm line st] scan_line_out [of st nm True line] by auto
  with 1 l s scan_out_commit [of st] show ?case
    by (subst scan_loop.simps) (auto intro: prefix_order.trans)
qed

text \<open>
  As long as nothing is found, the two modes make the same steps; the scan for one value
  stops with one value, which the scan for all keeps as its first.
\<close>

lemma scan_line_first:
  assumes "scan_out st = []"
  shows "(case scan_line nm False line st of
      (st', False) \<Rightarrow> scan_line nm True line st = (st', False) \<and> scan_out st' = []
    | (st', True) \<Rightarrow> scan_out st' = [scan_buf st] \<and> scan_out (fst (scan_line nm True line st)) = [scan_buf st])"
  using assms
  by (auto simp: scan_line_def scan_commit_def Let_def split: option.splits)

lemma scan_first: "scan_out st = [] \<Longrightarrow> scan_loop nm False raw st = take 1 (scan_loop nm True raw st)"
proof (induction nm "False" raw st rule: scan_loop.induct)
  case (1 nm raw st)
  show ?case
  proof (cases "raw = []")
    case True
    with 1(2) show ?thesis by (subst (1 2) scan_loop.simps) (simp add: scan_commit_def)
  next
    case False
    obtain line rest where l: "(case cut_byte nl raw of None \<Rightarrow> (raw, []) | Some (a, b) \<Rightarrow> (a, b)) = (line, rest)"
      by fastforce
    obtain st' stop where s: "scan_line nm False line st = (st', stop)" by fastforce
    obtain st2 stop2 where s2: "scan_line nm True line st = (st2, stop2)" by fastforce
    have e: "scan_loop nm False raw st = (if stop then scan_out st' else scan_loop nm False rest st')"
      using False by (subst scan_loop.simps) (simp add: l s)
    have "\<not> stop2" using scan_line_all_goes_on [of nm line st] s2 by simp
    then have e2: "scan_loop nm True raw st = scan_loop nm True rest st2"
      using False by (subst scan_loop.simps) (simp add: l s2)
    show ?thesis
    proof (cases stop)
      case True
      with scan_line_first [OF 1(2), of nm line] s s2
      have "scan_out st' = [scan_buf st]" "scan_out st2 = [scan_buf st]" by simp_all
      with scan_loop_prefix [of st2 nm rest] True show ?thesis
        by (auto simp: e e2 prefix_def)
    next
      case go: False
      with scan_line_first [OF 1(2), of nm line] s s2 have "st2 = st'" "scan_out st' = []" by simp_all
      with 1(1) [OF False l [symmetric] refl s [symmetric] refl go] go show ?thesis by (simp add: e e2)
    qed
  qed
qed

lemma Lookup_first: "obj_Lookup ob nm = (case obj_LookupAll ob nm of [] \<Rightarrow> [] | v # _ \<Rightarrow> v)"
  by (simp add: obj_Lookup_def obj_LookupAll_def scanAttr_def scan_first Let_def split: list.splits)

text \<open>
  On every object, \<open>Lookup\<close> returns the first of the values that \<open>LookupAll\<close> returns, and
  the empty string when there is none.
\<close>

theorem Lookup_first_of_LookupAll:
  "obj_Lookup ob nm = (case obj_LookupAll ob nm of [] \<Rightarrow> [] | v # _ \<Rightarrow> v)"
  by (rule Lookup_first)

subsection \<open>All matches in well-formed text\<close>

text \<open>The scan with one value captured (\<open>Some v\<close>) or none, after the values \<open>out\<close>.\<close>

definition scanning :: "string list \<Rightarrow> string option \<Rightarrow> scan" where
  "scanning out c = \<lparr>scan_out = out, scan_buf = (case c of None \<Rightarrow> [] | Some v \<Rightarrow> v), scan_matching = (c \<noteq> None)\<rparr>"

definition captured :: "string option \<Rightarrow> rline list \<Rightarrow> string list" where
  "captured c ls = (case c of None \<Rightarrow> [] | Some v \<Rightarrow> [v @ conts ls])"

lemma commit_scanning [simp]:
  "scan_commit (scanning out c) = scanning (out @ (case c of None \<Rightarrow> [] | Some v \<Rightarrow> [v])) None"
  by (auto simp: scan_commit_def scanning_def split: option.splits)

lemma scan_loop_line:
  assumes "nl \<notin> set l"
  shows "scan_loop nm True (l @ nl # rest) st = scan_loop nm True rest (fst (scan_line nm True l st))"
proof -
  have "\<not> snd (scan_line nm True l st)" by (rule scan_line_all_goes_on)
  with assms show ?thesis by (subst scan_loop.simps) (auto split: prod.splits)
qed

lemma scan_line_RAttr:
  assumes "rline_ok (RAttr n pad v)"
  shows "fst (scan_line nm True (n @ '':'' @ pad @ v) (scanning out c)) =
    scanning (out @ (case c of None \<Rightarrow> [] | Some w \<Rightarrow> [w])) (if n = nm then Some v else None)"
proof -
  let ?line = "n @ '':'' @ pad @ v"
  obtain d ds where n: "n = d # ds" "name_char d" using assms by (cases n) auto
  have trim: "TrimRight ?line [cr] = ?line" using attr_line_last [OF assms] by (intro TrimRight_id) auto
  have names: "\<forall>x \<in> set n. name_char x" using assms by (simp add: list_all_iff)
  then have "CHR '':'' \<notin> set n" using name_char_plain(6) by blast
  then have cut: "cut_byte (CHR '':'') ?line = Some (n, pad @ v)" by simp
  have head: "hd ?line = d" "?line \<noteq> []" "\<not> isContinuation ?line"
    using n name_char_plain [OF n(2)] by (simp_all add: isContinuation_def)
  have "TrimSpace n = n" "TrimSpace (pad @ v) = v" "n \<noteq> []"
    using assms by (simp_all add: TrimSpace_name blank_space)
  with name_char_plain [OF n(2)] head show ?thesis
    unfolding scan_line_def Let_def trim cut commit_scanning by (simp add: scanning_def)
qed

lemma scan_line_RCont:
  assumes "rline_ok (RCont lead t)"
  shows "fst (scan_line nm True (lead @ t) (scanning out c)) = scanning out (map_option (\<lambda>w. w @ nl # t) c)"
proof -
  have trim: "TrimRight (lead @ t) [cr] = lead @ t" using cont_line_last [OF assms] by (intro TrimRight_id) auto
  obtain d ds where "lead = d # ds" using assms by (cases lead) auto
  with assms have "hd (lead @ t) \<noteq> CHR ''#''" "hd (lead @ t) \<noteq> CHR ''%''" "lead @ t \<noteq> []" "isContinuation (lead @ t)"
    by (auto simp: isContinuation_def)
  with stripCont_line [OF assms] show ?thesis
    unfolding scan_line_def Let_def trim by (auto simp: scanning_def split: option.splits)
qed

lemma scan_line_RComment:
  assumes "rline_ok (RComment t)"
  shows "fst (scan_line nm True t (scanning out c)) = scanning out c"
proof -
  obtain d ds where t: "t = d # ds" "d = CHR ''#'' \<or> d = CHR ''%''" using assms by (cases t) auto
  then obtain u where "TrimRight t [cr] = d # u" using TrimRight_Cons [of d "[cr]" ds] by auto
  with t(2) show ?thesis by (auto simp: scan_line_def)
qed

lemma scan_block:
  assumes "list_all rline_ok ls"
  shows "scan_loop nm True (print_block ls) (scanning out c) = out @ captured c ls @ vals_of nm (attrs ls)"
  using assms
proof (induction ls arbitrary: out c)
  case Nil
  show ?case
    by (subst scan_loop.simps)
      (cases c; simp add: print_block_def captured_def vals_of_def; simp add: scanning_def)
next
  case (Cons l ls)
  then have ok: "rline_ok l" "list_all rline_ok ls" "nl \<notin> set (rline_text l)"
    by (auto simp: rline_no_nl)
  then have step: "scan_loop nm True (print_block (l # ls)) (scanning out c) =
      scan_loop nm True (print_block ls) (fst (scan_line nm True (rline_text l) (scanning out c)))"
    by (simp add: print_block_def scan_loop_line)
  show ?case
  proof (cases l)
    case (RAttr n pad v)
    then show ?thesis
      unfolding step using ok scan_line_RAttr [of n pad v] Cons.IH
      by (simp add: captured_def vals_of_def split: option.splits)
  next
    case (RCont lead t)
    then show ?thesis
      unfolding step using ok scan_line_RCont [of lead t] Cons.IH
      by (simp add: captured_def split: option.splits)
  next
    case (RComment t)
    then show ?thesis
      unfolding step using ok scan_line_RComment [of t] Cons.IH
      by (simp add: captured_def split: option.splits)
  qed
qed

lemma LookupAll_block:
  "list_all rline_ok b \<Longrightarrow> obj_LookupAll (make_object as (print_block b)) nm = vals_of nm (attrs b)"
  using scan_block [of b nm "[]" None]
  by (simp add: obj_LookupAll_def scanAttr_def make_object_def captured_def scanning_def)

text \<open>
  The parser folds attribute names to lower case, the scan compares them as they are written.
  An attribute name is spelled when every line that the parser takes for it has it in lower case.
\<close>

definition spelled :: "string \<Rightarrow> rline list \<Rightarrow> bool" where
  "spelled nm b \<longleftrightarrow> list_all (\<lambda>a. map lower_byte (fst a) = nm \<longrightarrow> fst a = nm) (attrs b)"

lemma vals_of_lower: "vals_of nm (lower_attrs as) = map snd (filter (\<lambda>a. map lower_byte (fst a) = nm) as)"
  by (induction as) (auto simp: vals_of_def lower_attrs_def)

lemma filter_sub:
  assumes "\<And>x. P x \<Longrightarrow> Q x"
  shows "subseq (map f (filter P xs)) (map f (filter Q xs))"
    and "map f (filter P xs) = map f (filter Q xs) \<longleftrightarrow> list_all (\<lambda>x. Q x \<longrightarrow> P x) xs"
proof -
  show s: "subseq (map f (filter P xs)) (map f (filter Q xs))" for xs
    using assms by (induction xs) auto
  show "map f (filter P xs) = map f (filter Q xs) \<longleftrightarrow> list_all (\<lambda>x. Q x \<longrightarrow> P x) xs"
  proof (induction xs)
    case (Cons x xs)
    have "length (filter P xs) \<le> length (filter Q xs)" using list_emb_length [OF s [of xs]] by simp
    then have "length (map f (filter P xs)) \<noteq> length (map f (x # filter Q xs))" by simp
    then have "map f (filter P xs) \<noteq> map f (x # filter Q xs)" by (rule contrapos_nn) simp
    with Cons assms [of x] show ?case by (cases "Q x"; cases "P x") simp_all
  qed simp
qed

lemma scan_vals:
  assumes "map lower_byte nm = nm"
  shows "subseq (vals_of nm (attrs b)) (vals_of nm (lower_attrs (attrs b)))"
    and "vals_of nm (attrs b) = vals_of nm (lower_attrs (attrs b)) \<longleftrightarrow> spelled nm b"
  unfolding vals_of_lower spelled_def unfolding vals_of_def
  using filter_sub [of "\<lambda>a. fst a = nm" "\<lambda>a. map lower_byte (fst a) = nm" snd "attrs b"] assms by auto

lemma lower_names: "nm \<in> set (''nic-hdl'' # handle_names) \<Longrightarrow> map lower_byte nm = nm"
proof -
  have "list_all (\<lambda>n. map lower_byte n = n) (''nic-hdl'' # handle_names)" by code_simp
  then show "nm \<in> set (''nic-hdl'' # handle_names) \<Longrightarrow> map lower_byte nm = nm" by (simp only: list_all_iff)
qed

text \<open>
  C35: where scanning on demand agrees with the parser. For every object parsed from well-formed
  text there is the block it comes from, and: \<open>LookupAll\<close> returns the values of the lines whose
  name is written exactly as asked; for each handle attribute these are some of the stored
  handles, in order, and they are all of them exactly when the name is in lower case on every
  line of that attribute; under the same condition the class attribute yields the primary key,
  and the stored nic-hdl is the first non-empty value of that attribute.
\<close>

theorem scan_agrees_with_parse:
  assumes "list_all (list_all rline_ok) bs"
    and "ob \<in> set (parsed_objects (print_blocks bs, AtEOF :: 'e read_end))"
  shows "\<exists>b \<in> set bs. Raw ob = print_block b \<and> (\<forall>nm. obj_LookupAll ob nm = vals_of nm (attrs b)) \<and>
    list_all2 (\<lambda>nm hs. subseq (obj_LookupAll ob nm) hs \<and> (obj_LookupAll ob nm = hs \<longleftrightarrow> spelled nm b))
      [''admin-c'', ''tech-c'', ''abuse-c'', ''zone-c''] (Handles ob) \<and>
    (spelled (Class ob) b \<longrightarrow> obj_Lookup ob (Class ob) = PrimaryKey ob) \<and>
    (spelled ''nic-hdl'' b \<longrightarrow> NicHdl ob = first_nonempty (obj_LookupAll ob ''nic-hdl''))"
proof -
  obtain b where b: "b \<in> set bs" "attrs b \<noteq> []"
    and ob: "ob = make_object (lower_attrs (attrs b)) (print_block b)"
    using assms(2) by (auto simp: parsed_print [OF assms(1)] block_objects_def)
  have ok: "list_all rline_ok b" using b assms(1) by (auto simp: list_all_iff)
  note all = LookupAll_block [OF ok, of "lower_attrs (attrs b)", folded ob]
  have hs: "Handles ob = map (\<lambda>nm. vals_of nm (lower_attrs (attrs b))) [''admin-c'', ''tech-c'', ''abuse-c'', ''zone-c'']"
    by (simp add: ob make_object_def handle_names_def)
  have "list_all2 (\<lambda>nm hs. subseq (obj_LookupAll ob nm) hs \<and> (obj_LookupAll ob nm = hs \<longleftrightarrow> spelled nm b))
      [''admin-c'', ''tech-c'', ''abuse-c'', ''zone-c''] (Handles ob)"
    unfolding hs all using scan_vals [OF lower_names] by (simp add: handle_names_def)
  moreover have "obj_Lookup ob (Class ob) = PrimaryKey ob" if "spelled (Class ob) b"
  proof -
    obtain n v as where a: "attrs b = (n, v) # as" using b(2) by (cases "attrs b") auto
    then have c: "Class ob = map lower_byte n" "PrimaryKey ob = v" by (simp_all add: ob make_object_def lower_attrs_def)
    then have "n = Class ob" using that a by (simp add: spelled_def)
    then show ?thesis using a c(2) by (simp add: Lookup_first all vals_of_def)
  qed
  moreover have "NicHdl ob = first_nonempty (obj_LookupAll ob ''nic-hdl'')" if "spelled ''nic-hdl'' b"
    using that scan_vals(2) [OF lower_names, of "''nic-hdl''" b] by (simp add: all) (simp add: ob make_object_def)
  moreover have "Raw ob = print_block b" by (simp add: ob make_object_def)
  ultimately show ?thesis using b(1) all by blast
qed

text \<open>A role in lower case, and a person whose names are capitalised.\<close>

definition scan_example :: "rline list" where
  "scan_example = [RAttr ''role'' '' '' ''NOC'', RAttr ''admin-c'' '' '' ''AB1-RIPE'', RCont '' '' ''AB2-RIPE'']"

definition capital_example :: "rline list" where
  "capital_example = [RAttr ''Person'' '' '' ''X'', RAttr ''Admin-C'' '' '' ''AB1-RIPE'']"

definition example_objects :: "Object list" where
  "example_objects = parsed_objects (print_blocks [scan_example, capital_example], AtEOF :: unit read_end)"

lemma scan_example_ok: "list_all (list_all rline_ok) [scan_example, capital_example]"
  by code_simp

lemma example_objects_eq:
  "example_objects = [make_object (lower_attrs (attrs scan_example)) (print_block scan_example),
     make_object (lower_attrs (attrs capital_example)) (print_block capital_example)]"
proof -
  have "attrs scan_example \<noteq> []" "attrs capital_example \<noteq> []" by code_simp+
  then show ?thesis
    unfolding example_objects_def parsed_print [OF scan_example_ok] by (simp add: block_objects_def)
qed

theorem scan_agrees_with_parse_witness:
  "obj_LookupAll (hd example_objects) ''admin-c'' = [''AB1-RIPE'' @ [nl] @ ''AB2-RIPE'']"
proof -
  let ?ob = "hd example_objects"
  have "?ob \<in> set (parsed_objects (print_blocks [scan_example, capital_example], AtEOF :: unit read_end))"
    unfolding example_objects_def [symmetric] by (simp add: example_objects_eq)
  from scan_agrees_with_parse [OF scan_example_ok this] obtain b where b: "b \<in> set [scan_example, capital_example]"
    "Raw ?ob = print_block b" "\<forall>nm. obj_LookupAll ?ob nm = vals_of nm (attrs b)" by blast
  have "print_block scan_example \<noteq> print_block capital_example" by code_simp
  moreover have "Raw ?ob = print_block scan_example" by (simp add: example_objects_eq make_object_def)
  ultimately have "b = scan_example" using b(1,2) by auto
  moreover have "vals_of ''admin-c'' (attrs scan_example) = [''AB1-RIPE'' @ [nl] @ ''AB2-RIPE'']" by code_simp
  ultimately show ?thesis using b(3) by simp
qed

text \<open>
  Scanning is case-sensitive and parsing is not: the parser stores \<open>person\<close>, \<open>X\<close> and the handle of
  the capitalised block, and a scan for the names the parser stored finds nothing.
\<close>

theorem scan_misses_capitals:
  "let ob = last example_objects in
     Class ob = ''person'' \<and> PrimaryKey ob = ''X'' \<and> Handles ob ! 0 = [''AB1-RIPE''] \<and>
     obj_Lookup ob ''person'' = [] \<and> obj_LookupAll ob ''admin-c'' = []"
  unfolding example_objects_eq Let_def by simp code_simp

end
