(* ===== verification/Spec2Isabelle.thy ===== *)
theory Spec2Isabelle
  imports Reload_Loop Start_Props Stats_Cli_Props Rpsl_Scan Cidr_Props
begin

text \<open>
  One Ring is \<open>whoisd\<close>, a WHOIS server (RFC 3912) that merges the RPSL dumps of the five
  regional Internet registries. It downloads the dumps, parses them into objects, indexes the
  objects in memory, and answers one query line per TCP connection. This development models the
  Go program under \<open>src/\<close> and proves what makes its parts, and their composition, correct.

  \<^bold>\<open>The program.\<close> \<open>main\<close> (\<open>main.go\<close>) loads the configuration (\<open>internal/config\<close>), writes a pid
  file (\<open>reload.go\<close>), builds the access list (\<open>internal/acl\<close>) and the rate limiter
  (\<open>internal/ratelimit\<close>), and makes a first round of refresh: the downloader fetches the dumps
  into a cache (\<open>internal/ripe/downloader.go\<close>, \<open>source.go\<close>), and the manager parses them
  (\<open>parser.go\<close>, \<open>intern.go\<close>) into a new store that it swaps in (\<open>store.go\<close>). Then the accept loop
  hands each connection to a goroutine (\<open>internal/server\<close>), which consults the semaphore, the
  access list and the limiter, looks its query up in the current store, and is recorded in the
  statistics (\<open>internal/stats\<close>); these are dumped to a file and served over HTTP, where the
  statistics client (\<open>stats_cli.go\<close>) reads them. Meanwhile a loop refreshes the store, and SIGHUP
  reloads the part of the configuration that can change at run time (\<open>reload.go\<close>).

  \<^bold>\<open>Layers and theories.\<close>

  \<^item> The language: \<open>Prelude\<close> (Go maps, rewrite collections), \<open>Go_Strings\<close> (the functions of
    \<open>strings\<close>, \<open>strconv\<close> and \<open>bytes\<close> that the code uses, on byte strings), \<open>Netip\<close>, \<open>Netip_Bits\<close>,
    \<open>Netip_String\<close> (\<open>net/netip\<close>: addresses as 32-bit and 128-bit words with a zone, prefixes,
    parsing and printing), \<open>File_System\<close> (a file system as a map, lexical paths).
  \<^item> Tries: \<open>Path_Trie\<close> states once, as the locale \<open>bit_trie\<close>, what a binary trie over the bits of a
    prefix promises (a value per path, untouched by other insertions), and proves the longest
    prefix and the list of covering prefixes from it. Its two interpretations are the access
    tree (\<open>Acl\<close>, \<open>Acl_Props\<close>, for \<open>internal/acl/bert.go\<close>) and the prefix index of the store
    (\<open>Net_Trie\<close>, for \<open>netTrie\<close> of \<open>internal/ripe/store.go\<close>).
  \<^item> Ranges: \<open>Cidr\<close> is \<open>rangeToCIDRs\<close> with its byte-level helpers. The locale \<open>addr_family\<close> of
    \<open>Cidr_Props\<close> states what the loop needs of an address family and is interpreted for IPv4 and
    for IPv6; it yields that the prefixes cover the range exactly, each address once, and that
    no shorter list does.
  \<^item> RPSL: \<open>Rpsl_Intern\<close>, \<open>Rpsl_Parser\<close> (the parser with its closures, and \<open>scanAttr\<close>),
    \<open>Rpsl_Props\<close> (what is delivered, and that it is well formed), \<open>Rpsl_Text\<close> (a printer and the
    round trip), \<open>Rpsl_Scan\<close> (what scanning on demand finds of what was extracted eagerly).
  \<^item> The database: \<open>Store\<close> with \<open>Store_Props\<close> and \<open>Store_Order\<close> (the indexes refine one list of
    inserted objects), \<open>Manager\<close> (a reload with its goroutines under an explicit schedule),
    \<open>Downloader\<close> (fetches with conditional requests, temporary files and renames).
  \<^item> The server: \<open>Query\<close>, \<open>Query_Props\<close> (from a line to an answer), \<open>Ratelimit\<close>,
    \<open>Ratelimit_Props\<close>, \<open>Server\<close> (a connection as a state machine), \<open>Server_Props\<close> (all connections
    interleaved, with changes of list, limiter and store), \<open>Server_Answer\<close> (one permitted
    connection from its first byte to its last), \<open>Listener\<close> (the accept loop, its rotation and
    shutdown).
  \<^item> Statistics: \<open>Ring\<close> (the sliding window), \<open>Stats\<close>, \<open>Stats_Props\<close> (the registry), \<open>Dumper\<close>,
    \<open>Stats_Http\<close>, \<open>Stats_Cli\<close>, \<open>Stats_Cli_Props\<close> (the client).
  \<^item> The program: \<open>Config\<close>, \<open>Config_Props\<close>, \<open>Logging\<close> (\<open>internal/logx\<close> and the logger of \<open>main.go\<close>),
    \<open>Pidfile\<close>, \<open>Main_Prog\<close> (\<open>main.go\<close>), \<open>Reload_Loop\<close> (\<open>reload.go\<close>), \<open>Program_Props\<close> (access list,
    refresh and their time), \<open>Start_Props\<close> (start and reload).

  \<^bold>\<open>Conventions.\<close> A struct is a record, an enumeration a datatype, a Go map a
  \<^typ>\<open>('k, 'v) mapping\<close>, a string a list of bytes. Identifiers and counters are 64-bit words where
  the code counts with wrap-around; addresses are words; durations and instants are integers in
  nanoseconds without their bound of 292 years (except where the client multiplies a number it
  received, which wraps), and a \<open>float64\<close> that is only compared is \<open>f64\<close>,
  one that is only printed a rational. An error is the left case of a sum or an option, a panic
  or an index out of range \<open>None\<close>, an exit of the process a constructor. Pointers that are shared
  and mutated are identifiers into the state that owns the objects (connections in the
  registry, sockets in the listener). What a goroutine does between two accesses to shared
  state is one step; concurrency is an explicit schedule or the interleaving of such steps in
  an inductive relation, and the invariants are proved by induction over it.

  \<^bold>\<open>Loops and fuel.\<close> Every loop is a total function. The loops of the parser, of the range
  decomposition and of the formatting of byte counts terminate by a measure; a connection takes
  at most eight phases, so that \<open>handle\<close> runs eight, and the theorem \<open>every_connection_ends\<close> shows
  that these are enough for every behaviour of the client and the network, because the read and
  the write have deadlines, provided the write timeout is positive; a call without a deadline
  leads to a phase of the model that never ends. The loops that run
  until shutdown (accepting, dumping, refreshing, reloading) are step relations or folds over
  the list of what happens.

  \<^bold>\<open>Parameters.\<close> Code that is not part of the repository is an argument of the model: the token
  bucket of \<open>golang.org/x/time/rate\<close>, the YAML and JSON codecs, the gzip reader, the HTTP client
  and server, case conversion of non-ASCII text, the formatting of time stamps and of
  floating-point numbers, the function \<open>sort.Slice\<close> (it gets the comparator of the code), and the
  outcomes of system calls, the removal of a temporary file included. Only a few theorems need
  a hypothesis on them, and each is stated in the theorem.

  \<^bold>\<open>What the theorems show.\<close> The trie of the access list and the indexes of the store refine lists
  (the longest prefix over the rules in their order; the covering objects in the order of their
  prefixes). Text printed in the RPSL format is parsed back; scanning finds the attributes whose
  name is spelled as it is asked for. A
  reload, a fetch and a dump are atomic: they either leave what was there or put the complete
  new value in its place, under every interleaving and every failure. A query gets exactly the
  objects of the current store and what their contacts refer to; a refused connection gets its
  refusal only; no more connections hold a slot than configured, each ends, and the registry
  counts each once. The listener survives its rotations, and after a shutdown the accept loop
  returns once the running handlers have ended. The limiter behaves as one bucket per network
  that comes back full after it was collected. The configuration is
  validated exactly, decides as documented, and a reload of it has the effect of a restart.

  \<^bold>\<open>Where the code does not do what it says.\<close> These are theorems too: a source whose download fails
  once stays missing after it recovers (\<open>failed_source_stays_missing\<close>); a rebind before the first
  listener leaks a socket (\<open>early_rebind_leaks\<close>); a client that stops reading holds its handler
  for ever when the write timeout is negative (\<open>stalled_client_keeps_slot\<close>); \<open>Lookup\<close> misses an
  attribute that the file spells with capitals (\<open>scan_misses_capitals\<close>); a failed start leaves the pid file
  (\<open>failed_start_leaves_pid\<close>); validation lets configurations through that panic or have no write
  deadline (\<open>validation_gaps\<close>); a failed rename leaves the temporary file (\<open>failed_dump_leftover\<close>); loopback
  can be denied (\<open>loopback_can_be_denied\<close>).

  \<^bold>\<open>Not modelled.\<close> The dashboard page and its assets, the declaration of the flags and the usage
  text, the attributes and the layout of log lines, TLS and the transport below \<open>Read\<close> and
  \<open>Write\<close> (keep-alive probes, the buffers of the kernel), the memory model below the granularity
  of locks and atomics, and the build and packaging files.
\<close>

end
